theory Spec2Isabelle
  imports Complex_Main
begin

section \<open>Numeric values and arrays\<close>

text \<open>
  The analysis module (\<^verbatim>\<open>lib/math.py\<close>) computes on numpy arrays of 64-bit floats.
  A float is modelled as a finite real number, one of the two infinities, or NaN: the
  arithmetic below is IEEE-754 arithmetic as numpy performs it (division by zero gives an
  infinity or NaN with a warning, never an exception; NaN propagates; every comparison with
  NaN is false), without rounding, overflow and the sign of zero.
\<close>

datatype float64 = Fin real | PInf | NInf | NaN

datatype error = ValueError | ZeroDivisionError | IndexError | KeyError | TypeError | LinAlgError

fun isnan :: "float64 \<Rightarrow> bool" where
  "isnan NaN = True"
| "isnan _ = False"

fun fneg :: "float64 \<Rightarrow> float64" where
  "fneg (Fin a) = Fin (- a)"
| "fneg PInf = NInf"
| "fneg NInf = PInf"
| "fneg NaN = NaN"

fun fadd :: "float64 \<Rightarrow> float64 \<Rightarrow> float64" where
  "fadd (Fin a) (Fin b) = Fin (a + b)"
| "fadd (Fin a) PInf = PInf"
| "fadd (Fin a) NInf = NInf"
| "fadd PInf (Fin b) = PInf"
| "fadd PInf PInf = PInf"
| "fadd PInf NInf = NaN"
| "fadd NInf (Fin b) = NInf"
| "fadd NInf PInf = NaN"
| "fadd NInf NInf = NInf"
| "fadd NaN y = NaN"
| "fadd x NaN = NaN"

definition fsub :: "float64 \<Rightarrow> float64 \<Rightarrow> float64" where
  "fsub x y = fadd x (fneg y)"

fun fmul :: "float64 \<Rightarrow> float64 \<Rightarrow> float64" where
  "fmul (Fin a) (Fin b) = Fin (a * b)"
| "fmul (Fin a) PInf = (if a = 0 then NaN else if 0 < a then PInf else NInf)"
| "fmul (Fin a) NInf = (if a = 0 then NaN else if 0 < a then NInf else PInf)"
| "fmul PInf (Fin b) = (if b = 0 then NaN else if 0 < b then PInf else NInf)"
| "fmul NInf (Fin b) = (if b = 0 then NaN else if 0 < b then NInf else PInf)"
| "fmul PInf PInf = PInf"
| "fmul PInf NInf = NInf"
| "fmul NInf PInf = NInf"
| "fmul NInf NInf = PInf"
| "fmul NaN y = NaN"
| "fmul x NaN = NaN"

fun fdiv :: "float64 \<Rightarrow> float64 \<Rightarrow> float64" where
  "fdiv (Fin a) (Fin b) =
     (if b \<noteq> 0 then Fin (a / b)
      else if a = 0 then NaN
      else if 0 < a then PInf else NInf)"
| "fdiv (Fin a) PInf = Fin 0"
| "fdiv (Fin a) NInf = Fin 0"
| "fdiv PInf (Fin b) = (if 0 \<le> b then PInf else NInf)"
| "fdiv NInf (Fin b) = (if 0 \<le> b then NInf else PInf)"
| "fdiv PInf PInf = NaN"
| "fdiv PInf NInf = NaN"
| "fdiv NInf PInf = NaN"
| "fdiv NInf NInf = NaN"
| "fdiv NaN y = NaN"
| "fdiv x NaN = NaN"

text \<open>\<open>x < y\<close> on floats: false as soon as one side is NaN.\<close>

fun flt :: "float64 \<Rightarrow> float64 \<Rightarrow> bool" where
  "flt (Fin a) (Fin b) = (a < b)"
| "flt (Fin a) PInf = True"
| "flt NInf (Fin b) = True"
| "flt NInf PInf = True"
| "flt x y = False"

definition fgt :: "float64 \<Rightarrow> float64 \<Rightarrow> bool" where
  "fgt x y = flt y x"

text \<open>
  \<^verbatim>\<open>np.clip(x, cmin, cmax)\<close> is \<^verbatim>\<open>minimum(maximum(x, cmin), cmax)\<close>; NaN stays NaN.
  The bounds are the finite numbers of the configured clip range.
\<close>

fun clip :: "real \<Rightarrow> real \<Rightarrow> float64 \<Rightarrow> float64" where
  "clip cmin cmax (Fin x) = Fin (min (max x cmin) cmax)"
| "clip cmin cmax PInf = Fin cmax"
| "clip cmin cmax NInf = Fin (min cmin cmax)"
| "clip cmin cmax NaN = NaN"

text \<open>
  A binary operation on two one-dimensional arrays: element by element when the lengths
  agree, a one-element array is broadcast, any other pair of shapes raises ValueError.
\<close>

definition ew2 ::
  "(float64 \<Rightarrow> float64 \<Rightarrow> float64) \<Rightarrow> float64 list \<Rightarrow> float64 list \<Rightarrow> error + float64 list"
where
  "ew2 f xs ys =
     (if length xs = length ys then Inr (map2 f xs ys)
      else if length xs = 1 then Inr (map (f (hd xs)) ys)
      else if length ys = 1 then Inr (map (\<lambda>x. f x (hd ys)) xs)
      else Inl ValueError)"

text \<open>Sequencing of computations that may raise: the first error wins.\<close>

definition bindE :: "error + 'a \<Rightarrow> ('a \<Rightarrow> error + 'b) \<Rightarrow> error + 'b" where
  "bindE m f = (case m of Inl e \<Rightarrow> Inl e | Inr v \<Rightarrow> f v)"

section \<open>Correction engine\<close>

text \<open>
  The six arrays of a trace, in the order \<^verbatim>\<open>correctDA\<close> unpacks them:
  \<^verbatim>\<open>grn_int, grn_bg, acc_int, acc_bg, red_int, red_bg\<close>.
\<close>

type_synonym intensities =
  "float64 list \<times> float64 list \<times> float64 list \<times> float64 list \<times> float64 list \<times> float64 list"

text \<open>\<^verbatim>\<open>correctDA\<close>: returns \<open>(F_DA, I_DD, I_DA, I_AA)\<close>.\<close>

definition correctDA ::
  "intensities \<Rightarrow> real \<Rightarrow> real \<Rightarrow>
   error + (float64 list \<times> float64 list \<times> float64 list \<times> float64 list)"
where
  "correctDA intens alpha delta =
     (case intens of (grn_int, grn_bg, acc_int, acc_bg, red_int, red_bg) \<Rightarrow>
        bindE (ew2 fsub grn_int grn_bg) (\<lambda>I_DD.
        bindE (ew2 fsub acc_int acc_bg) (\<lambda>I_DA.
        bindE (ew2 fsub red_int red_bg) (\<lambda>I_AA.
        bindE (ew2 fsub I_DA (map (fmul (Fin alpha)) I_DD)) (\<lambda>t.
        bindE (ew2 fsub t (map (fmul (Fin delta)) I_AA)) (\<lambda>F_DA.
        Inr (F_DA, I_DD, I_DA, I_AA)))))))"

text \<open>\<^verbatim>\<open>calcFRET\<close>: \<open>E = F_DA / (I_DD + F_DA)\<close>, clipped to the clip range.\<close>

definition calcFRET :: "intensities \<Rightarrow> real \<Rightarrow> real \<Rightarrow> real \<times> real \<Rightarrow> error + float64 list" where
  "calcFRET intens alpha delta clip_range =
     (case clip_range of (cmin, cmax) \<Rightarrow>
        bindE (correctDA intens alpha delta) (\<lambda>(F_DA, I_DD, I_DA, I_AA).
        bindE (ew2 fadd I_DD F_DA) (\<lambda>den.
        bindE (ew2 fdiv F_DA den) (\<lambda>E.
        Inr (map (clip cmin cmax) E)))))"

text \<open>
  \<^verbatim>\<open>calcStoi\<close>: \<open>S = (gamma * I_DD + F_DA) / (gamma * I_DD + F_DA + inv_beta * I_AA)\<close>,
  clipped. \<open>beta\<close> and \<open>gamma\<close> are Python numbers: \<^verbatim>\<open>1 / beta\<close> raises
  ZeroDivisionError at zero, before any array is touched but after \<^verbatim>\<open>correctDA\<close>.
\<close>

definition calcStoi ::
  "intensities \<Rightarrow> real \<Rightarrow> real \<Rightarrow> real \<Rightarrow> real \<Rightarrow> real \<times> real \<Rightarrow> error + float64 list"
where
  "calcStoi intens alpha delta beta gamma clip_range =
     (case clip_range of (cmin, cmax) \<Rightarrow>
        bindE (correctDA intens alpha delta) (\<lambda>(F_DA, I_DD, I_DA, I_AA).
        if beta = 0 then Inl ZeroDivisionError
        else
          let inv_beta = 1 / beta in
          bindE (ew2 fadd (map (fmul (Fin gamma)) I_DD) F_DA) (\<lambda>num.
          bindE (ew2 fadd num (map (fmul (Fin inv_beta)) I_AA)) (\<lambda>den.
          bindE (ew2 fdiv num den) (\<lambda>S.
          Inr (map (clip cmin cmax) S))))))"

text \<open>The default clip range of both functions.\<close>

definition default_clip :: "real \<times> real" where
  "default_clip = (- 3 / 10, 13 / 10)"

text \<open>A value lies within the closed range \<open>[cmin, cmax]\<close>: it is a number, and in range.\<close>

definition in_clip_range :: "real \<Rightarrow> real \<Rightarrow> float64 \<Rightarrow> bool" where
  "in_clip_range cmin cmax e = (case e of Fin x \<Rightarrow> cmin \<le> x \<and> x \<le> cmax | _ \<Rightarrow> False)"

text \<open>Two one-frame traces used as concrete inputs below.\<close>

definition lit_frame :: intensities where
  "lit_frame = ([Fin 300], [Fin 100], [Fin 250], [Fin 50], [Fin 400], [Fin 100])"

definition dark_frame :: intensities where
  "dark_frame = ([Fin 100], [Fin 100], [Fin 80], [Fin 80], [Fin 50], [Fin 50])"

text \<open>
  Six frames used as a concrete input below. With \<open>alpha = delta = 0\<close> and
  \<open>beta = gamma = 1\<close> their unclipped ratios are: E \<open>1/2\<close>, \<open>3/2\<close>, \<open>200/0\<close>, \<open>-2\<close>, \<open>0/0\<close>,
  \<open>-200/0\<close>, and S \<open>4/7\<close>, \<open>4\<close>, \<open>0\<close>, \<open>100/0\<close>, \<open>0/0\<close>, \<open>0\<close>.
\<close>

definition extreme_frames :: intensities where
  "extreme_frames =
     (map Fin [300, 0, 0, 400, 100, 300], map Fin [100, 100, 200, 100, 100, 100],
      map Fin [250, 350, 250, 0, 80, 0], map Fin [50, 50, 50, 200, 80, 200],
      map Fin [400, 0, 150, 0, 50, 100], map Fin [100, 150, 50, 100, 50, 50])"

section \<open>Bleach detection\<close>

text \<open>
  \<^verbatim>\<open>scipy.signal.medfilt(volume, kernel_size)\<close> on a one-dimensional boolean array: the
  kernel size must be odd (ValueError otherwise); the array is padded with zeros (False),
  and entry \<open>i\<close> of the result is the median of the window of \<open>kernel_size\<close> entries
  centred at \<open>i\<close>, that is the entry of rank \<open>kernel_size div 2\<close> of the sorted window.
\<close>

definition window_at :: "bool list \<Rightarrow> nat \<Rightarrow> nat \<Rightarrow> bool list" where
  "window_at xs h i =
     map (\<lambda>j. if h \<le> i + j \<and> i + j - h < length xs then xs ! (i + j - h) else False)
       [0..<2 * h + 1]"

definition median :: "bool list \<Rightarrow> bool" where
  "median ws = sort ws ! (length ws div 2)"

definition medfilt :: "bool list \<Rightarrow> nat \<Rightarrow> error + bool list" where
  "medfilt xs w =
     (if w mod 2 \<noteq> 1 then Inl ValueError
      else Inr (map (\<lambda>i. median (window_at xs (w div 2) i)) [0..<length xs]))"

text \<open>
  \<^verbatim>\<open>np.argmax\<close>: the index of the first occurrence of the maximum; ValueError on an
  empty array.
\<close>

fun argmax_loop :: "bool list \<Rightarrow> nat \<Rightarrow> bool \<Rightarrow> nat \<Rightarrow> nat" where
  "argmax_loop [] i mx mi = mi"
| "argmax_loop (x # xs) i mx mi =
     (if mx < x then argmax_loop xs (i + 1) x i else argmax_loop xs (i + 1) mx mi)"

definition argmax :: "bool list \<Rightarrow> error + nat" where
  "argmax xs = (case xs of [] \<Rightarrow> Inl ValueError | x # rest \<Rightarrow> Inr (argmax_loop rest 1 x 0))"

text \<open>The boolean series \<^verbatim>\<open>p_bleach > threshold\<close>.\<close>

definition thresholded :: "float64 list \<Rightarrow> real \<Rightarrow> bool list" where
  "thresholded p_bleach threshold = map (\<lambda>p. fgt p (Fin threshold)) p_bleach"

text \<open>\<^verbatim>\<open>find_bleach\<close>: frame 0 as the first bleached frame is reported as None.\<close>

definition find_bleach :: "float64 list \<Rightarrow> real \<Rightarrow> nat \<Rightarrow> error + nat option" where
  "find_bleach p_bleach threshold window =
     bindE (medfilt (thresholded p_bleach threshold) window) (\<lambda>is_bleached.
     bindE (argmax is_bleached) (\<lambda>bleach_frame.
     Inr (if bleach_frame = 0 then None else Some bleach_frame)))"

text \<open>Three probability series used as concrete inputs below.\<close>

definition onset_series :: "float64 list" where
  "onset_series = map Fin [1/10, 1/10, 9/10, 9/10, 9/10, 9/10, 9/10, 9/10, 9/10]"

definition leading_series :: "float64 list" where
  "leading_series = map Fin [9/10, 9/10, 9/10, 9/10, 9/10, 9/10, 9/10]"

definition quiet_series :: "float64 list" where
  "quiet_series = map Fin [1/10, 2/10, 9/10, 1/10, 1/10]"

section \<open>Sequence-probability summary\<close>

text \<open>
  A two-dimensional array is its number of columns (\<^verbatim>\<open>yi.shape[1]\<close>, which an array
  has even when it has no rows) and its rows, each of that length.
\<close>

type_synonym matrix = "nat \<times> float64 list list"

text \<open>\<^verbatim>\<open>np.sum\<close> of a one-dimensional array.\<close>

definition fsum :: "float64 list \<Rightarrow> float64" where
  "fsum xs = foldl fadd (Fin 0) xs"

definition column :: "float64 list list \<Rightarrow> nat \<Rightarrow> float64 list" where
  "column rows j = map (\<lambda>r. r ! j) rows"

text \<open>
  \<^verbatim>\<open>seq_probabilities\<close>: the rows whose entry in \<open>skip_column\<close> is below the threshold
  are kept (\<^verbatim>\<open>yi[yi[:, skip_column] < skip_threshold]\<close>); a column index outside the
  array raises IndexError, as does \<^verbatim>\<open>p[[2, 3]]\<close> on fewer than four columns.
\<close>

definition seq_probabilities :: "matrix \<Rightarrow> real \<Rightarrow> nat \<Rightarrow> error + (float64 list \<times> float64)" where
  "seq_probabilities yi skip_threshold skip_column =
     (case yi of (ncols, rows) \<Rightarrow>
        if ncols \<le> skip_column then Inl IndexError
        else
          let kept = filter (\<lambda>r. flt (r ! skip_column) (Fin skip_threshold)) rows;
              p = (if 0 < length kept then
                     let s = map (\<lambda>j. fdiv (fsum (column kept j)) (Fin (real (length kept))))
                               [0..<ncols]
                     in map (\<lambda>x. fdiv x (fsum s)) s
                   else replicate ncols (Fin 0))
          in if ncols \<le> 3 then Inl IndexError
             else Inr (p, fsum [p ! 2, p ! 3]))"

text \<open>The sum of column \<open>j\<close> of a list of rows of numbers.\<close>

definition colsum :: "real list list \<Rightarrow> nat \<Rightarrow> real" where
  "colsum rows j = sum_list (map (\<lambda>r. r ! j) rows)"

text \<open>
  Two class-probability matrices used as concrete inputs below: one frame whose bleach
  probability equals the default threshold, and three frames of which the second is
  bleached.
\<close>

definition threshold_frame :: matrix where
  "threshold_frame = (6, [map Fin [1/2, 1/10, 1/10, 1/10, 1/10, 1/10]])"

definition three_frames :: matrix where
  "three_frames = (6, [map Fin [1/10, 1/10, 2/10, 4/10, 1/10, 1/10], map Fin [9/10, 0, 0, 0, 1/10, 0],
     map Fin [3/10, 1/10, 4/10, 2/10, 0, 0]])"

section \<open>Population model fitter\<close>

text \<open>
  \<^verbatim>\<open>fit_gaussian_mixture\<close> fits with scikit-learn, which is not part of the repository:
  a fitted mixture is the record of what the function reads from it (weights, means,
  covariances, its BIC on the data), and fitting with \<open>k\<close> components is a parameter
  \<open>fit k arr\<close> that may raise.
\<close>

record gmm =
  gm_weights :: "real list"
  gm_means :: "real list"
  gm_covariances :: "real list"
  gm_bic :: real

text \<open>\<open>k_states\<close> is a Python \<^verbatim>\<open>range\<close> (the candidates of the automatic mode) or a number.\<close>

datatype k_states = KRange "nat list" | KFixed nat

text \<open>
  What the function returns: the tuple \<^verbatim>\<open>(None, None)\<close>, or the dictionary
  \<^verbatim>\<open>dict(params=params, bics=bics_, best_k=best_k)\<close>.
\<close>

datatype gm_result =
    NoneNone
  | FitDict "(real \<times> real \<times> real) list" "real list" "nat option"

text \<open>\<^verbatim>\<open>np.argmin\<close>: the index of the first occurrence of the minimum; ValueError when empty.\<close>

fun argmin_loop :: "real list \<Rightarrow> nat \<Rightarrow> real \<Rightarrow> nat \<Rightarrow> nat" where
  "argmin_loop [] i mn mi = mi"
| "argmin_loop (x # xs) i mn mi =
     (if x < mn then argmin_loop xs (i + 1) x i else argmin_loop xs (i + 1) mn mi)"

definition argmin :: "real list \<Rightarrow> error + nat" where
  "argmin xs = (case xs of [] \<Rightarrow> Inl ValueError | x # rest \<Rightarrow> Inr (argmin_loop rest 1 x 0))"

text \<open>The loop over the candidate state counts: fit, then record the model.\<close>

fun fit_each :: "(nat \<Rightarrow> float64 list \<Rightarrow> error + gmm) \<Rightarrow> float64 list \<Rightarrow> nat list \<Rightarrow> error + gmm list" where
  "fit_each fit arr [] = Inr []"
| "fit_each fit arr (k # ks) =
     bindE (fit k arr) (\<lambda>g. bindE (fit_each fit arr ks) (\<lambda>gs. Inr (g # gs)))"

text \<open>The \<open>(mean, sigma, weight)\<close> triples of a fitted mixture, sorted by mean.\<close>

definition params_of :: "gmm \<Rightarrow> (real \<times> real \<times> real) list" where
  "params_of g =
     sort_key fst (zip (gm_means g) (zip (map sqrt (gm_covariances g)) (gm_weights g)))"

definition fit_gaussian_mixture ::
  "(nat \<Rightarrow> float64 list \<Rightarrow> error + gmm) \<Rightarrow> float64 list \<Rightarrow> k_states \<Rightarrow> error + gm_result"
where
  "fit_gaussian_mixture fit arr ks =
     (if length arr < 2 then Inr NoneNone
      else case ks of
        KRange cands \<Rightarrow>
          bindE (fit_each fit arr cands) (\<lambda>gs.
          let bics = map gm_bic gs in
          bindE (argmin bics) (\<lambda>i.
          let best_k = i + 1 in
          bindE (fit best_k arr) (\<lambda>g.
          Inr (FitDict (params_of g) bics (Some best_k)))))
      | KFixed k \<Rightarrow>
          bindE (fit k arr) (\<lambda>g. Inr (FitDict (params_of g) [] None)))"

text \<open>
  How the caller (\<^verbatim>\<open>fitGaussians\<close> in \<^verbatim>\<open>main.py\<close>) reads the result:
  \<^verbatim>\<open>fitdict["params"]\<close>, \<^verbatim>\<open>fitdict["bics"]\<close>, \<^verbatim>\<open>fitdict["best_k"]\<close>. Subscripting a
  tuple with a string raises TypeError.
\<close>

fun read_fitdict :: "gm_result \<Rightarrow> error + ((real \<times> real \<times> real) list \<times> real list \<times> nat option)" where
  "read_fitdict (FitDict ps bs k) = Inr (ps, bs, k)"
| "read_fitdict NoneNone = Inl TypeError"

text \<open>A fitter that always raises: where it is passed, a result shows it was not called.\<close>

definition failing_fit :: "nat \<Rightarrow> float64 list \<Rightarrow> error + gmm" where
  "failing_fit k arr = Inl ValueError"

section \<open>Correction-factor estimator\<close>

text \<open>
  \<^verbatim>\<open>leastsq_line(x, y)\<close> hands the design matrix with rows \<open>(x\<^sub>i, 1)\<close> and the vector
  \<open>y\<close> to \<^verbatim>\<open>np.linalg.lstsq\<close> and returns the solution as \<open>(slope, intercept)\<close>. The
  LAPACK routine is not part of the repository: it is the parameter \<open>lstsq\<close>, which may
  raise.
\<close>

type_synonym lstsq = "float64 list \<Rightarrow> float64 list \<Rightarrow> error + (float64 \<times> float64)"





text \<open>A value is a finite number: neither NaN nor an infinity.\<close>

fun isfinite :: "float64 \<Rightarrow> bool" where
  "isfinite (Fin x) = True"
| "isfinite _ = False"

fun real_of :: "float64 \<Rightarrow> real" where
  "real_of (Fin x) = x"
| "real_of _ = 0"

text \<open>
  \<^verbatim>\<open>np.linalg.lstsq(A, y, rcond=None)[0]\<close> for the design matrix \<open>A\<close> with rows
  \<open>(x\<^sub>i, 1)\<close>, as numpy defines it, in exact arithmetic. Arrays of different lengths
  raise LinAlgError (incompatible dimensions). A system without rows is answered with
  zeros (numpy sets the solution to zero when \<open>A\<close> has no rows). An entry that is not
  finite makes the decomposition fail (LinAlgError). Otherwise the answer is the
  least-squares solution of smallest norm: the regression line when two of the \<open>x\<^sub>i\<close>
  differ (the determinant \<open>d\<close> of the normal equations is not zero), and, when every
  \<open>x\<^sub>i\<close> is the same \<open>c\<close>, the multiple of \<open>(c, 1)\<close> that takes the value \<open>mean y\<close> at \<open>c\<close>.
  The rank is decided exactly (the cut-off \<open>rcond\<close> for small singular values is the
  machine precision times the larger dimension and only matters for nearly equal
  \<open>x\<^sub>i\<close>).
\<close>

definition np_linalg_lstsq :: lstsq where
  "np_linalg_lstsq x y =
     (if length y \<noteq> length x then Inl LinAlgError
      else if x = [] then Inr (Fin 0, Fin 0)
      else if \<not> (list_all isfinite x \<and> list_all isfinite y) then Inl LinAlgError
      else
        let xs = map real_of x; ys = map real_of y; m = real (length xs);
            sx = sum_list xs; sxx = sum_list (map (\<lambda>v. v * v) xs);
            sy = sum_list ys; sxy = sum_list (map2 (\<lambda>v w. v * w) xs ys);
            d = m * sxx - sx * sx
        in if d \<noteq> 0 then
             let slope = (m * sxy - sx * sy) / d
             in Inr (Fin slope, Fin ((sy - slope * sx) / m))
           else
             let c = hd xs; ybar = sy / m
             in Inr (Fin (c * ybar / (c * c + 1)), Fin (ybar / (c * c + 1))))"

section \<open>Model-order selection\<close>

text \<open>
  \<^verbatim>\<open>np.argpartition(s, kth)\<close> raises ValueError unless \<open>kth\<close> is an index of \<open>s\<close>. For
  \<open>kth < 3\<close>, the only use here, numpy's selection is a selection sort of the first
  \<open>kth + 1\<close> places of the index array: for each place \<open>i\<close> from 0 to \<open>kth\<close>, the position
  of the first minimum among the places from \<open>i\<close> on is found (a later place replaces the
  current minimum only when its value is strictly smaller) and swapped into place \<open>i\<close>.
\<close>

fun min_scan :: "real list \<Rightarrow> nat list \<Rightarrow> nat list \<Rightarrow> nat \<Rightarrow> real \<Rightarrow> nat" where
  "min_scan v tosort [] minidx minval = minidx"
| "min_scan v tosort (k # ks) minidx minval =
     (if v ! (tosort ! k) < minval then min_scan v tosort ks k (v ! (tosort ! k))
      else min_scan v tosort ks minidx minval)"

definition select_step :: "real list \<Rightarrow> nat list \<Rightarrow> nat \<Rightarrow> nat list" where
  "select_step v tosort i =
     (let minidx = min_scan v tosort [i + 1..<length tosort] i (v ! (tosort ! i))
      in tosort[i := tosort ! minidx, minidx := tosort ! i])"

definition dumb_select :: "real list \<Rightarrow> nat list \<Rightarrow> nat \<Rightarrow> nat list" where
  "dumb_select v tosort kth = foldl (select_step v) tosort [0..<kth + 1]"

definition argpartition :: "real list \<Rightarrow> nat \<Rightarrow> error + nat list" where
  "argpartition s kth =
     (if length s \<le> kth then Inl ValueError
      else Inr (dumb_select s [0..<length s] kth))"

text \<open>
  \<^verbatim>\<open>_heuristic_bic(s, tol)\<close> of \<^verbatim>\<open>fit_hmm\<close>: \<open>s\<close> holds one BIC score per candidate
  (\<^verbatim>\<open>n_components_max\<close> of them, 3 by default), the score at index \<open>i\<close> being that of the
  model with \<open>i + 1\<close> states; the result is the index of the chosen model. Scores are
  numbers: a failed likelihood evaluation has been replaced by the penalty \<open>10e5\<close>.
\<close>

definition heuristic_bic :: "real list \<Rightarrow> real \<Rightarrow> error + nat" where
  "heuristic_bic s tol =
     bindE (argpartition s 2) (\<lambda>part.
       let best_idx = part ! 0; sec_best_idx = part ! 1 in
       Inr (if sec_best_idx < best_idx then
              (if s ! best_idx + tol > s ! sec_best_idx then sec_best_idx else best_idx)
            else best_idx))"

section \<open>Transition table\<close>

text \<open>
  The second half of \<^verbatim>\<open>fit_hmm\<close> builds the table of state changes from the idealized
  signal \<^verbatim>\<open>hf["y_fit"]\<close> with pandas and numpy column operations. Each is modelled on
  lists: \<^verbatim>\<open>np.roll(x, -1)\<close>, \<^verbatim>\<open>Series.diff()\<close> (whose first entry is NaN), \<^verbatim>\<open>abs\<close>,
  \<^verbatim>\<open>cumsum\<close> of a boolean series, \<^verbatim>\<open>drop_duplicates(subset=..., keep="last")\<close> and
  \<^verbatim>\<open>np.diff\<close>.
\<close>

definition roll_left :: "'a list \<Rightarrow> 'a list" where
  "roll_left xs = (case xs of [] \<Rightarrow> [] | x # rest \<Rightarrow> rest @ [x])"

definition series_diff :: "float64 list \<Rightarrow> float64 list" where
  "series_diff ys = (case ys of [] \<Rightarrow> [] | y # rest \<Rightarrow> NaN # map2 fsub rest ys)"

fun fabs :: "float64 \<Rightarrow> float64" where
  "fabs (Fin a) = Fin \<bar>a\<bar>"
| "fabs PInf = PInf"
| "fabs NInf = PInf"
| "fabs NaN = NaN"

fun cumsum :: "nat \<Rightarrow> bool list \<Rightarrow> nat list" where
  "cumsum acc [] = []"
| "cumsum acc (b # bs) = (acc + (if b then 1 else 0)) # cumsum (acc + (if b then 1 else 0)) bs"

text \<open>Rows are kept in order; a row is dropped when a later row has the same key.\<close>

fun drop_duplicates_last :: "('k \<times> 'r) list \<Rightarrow> ('k \<times> 'r) list" where
  "drop_duplicates_last [] = []"
| "drop_duplicates_last (r # rs) =
     (if fst r \<in> fst ` set rs then drop_duplicates_last rs else r # drop_duplicates_last rs)"

fun np_diff :: "nat list \<Rightarrow> float64 list" where
  "np_diff (a # b # rest) = Fin (real b - real a) # np_diff (b # rest)"
| "np_diff _ = []"

text \<open>
  The \<^verbatim>\<open>lifetimes\<close> table that \<^verbatim>\<open>fit_hmm\<close> returns, as a function of the idealized
  signal: one row \<open>(y_before, y_after, lifetime)\<close> per kept row, without the last.
  Assigning the lifetime column raises ValueError when its length is not the number of
  rows, which happens exactly for the empty signal.
\<close>

definition fit_hmm_lifetimes :: "float64 list \<Rightarrow> error + (float64 \<times> float64 \<times> float64) list" where
  "fit_hmm_lifetimes y_fit =
     (let time = [1..<length y_fit + 1];
          y_after = roll_left y_fit;
          state_jump = cumsum 0 (map (\<lambda>d. fgt (fabs d) (Fin 0)) (series_diff y_fit));
          lf = drop_duplicates_last (zip state_jump (zip y_fit (zip y_after time)));
          lifetime = NaN # np_diff (map (\<lambda>(sj, y, ya, t). t) lf)
      in if length lifetime \<noteq> length lf then Inl ValueError
         else Inr (butlast (map2 (\<lambda>(sj, y, ya, t) l. (y, ya, l)) lf lifetime)))"

text \<open>
  A signal given by its constant-value runs, each a value and a length: the runs are
  proper when every length is positive and neighbouring runs differ in value.
\<close>

fun expand :: "(real \<times> nat) list \<Rightarrow> float64 list" where
  "expand [] = []"
| "expand ((v, n) # runs) = replicate n (Fin v) @ expand runs"

fun proper_runs :: "(real \<times> nat) list \<Rightarrow> bool" where
  "proper_runs [] = True"
| "proper_runs [(v, n)] = (0 < n)"
| "proper_runs ((v, n) # (v', n') # runs) = (0 < n \<and> v \<noteq> v' \<and> proper_runs ((v', n') # runs))"

text \<open>
  The rows for the state changes of a signal given by its runs: one row per pair of
  neighbouring runs, with the length of the run before the change as lifetime.
\<close>

fun change_rows :: "(real \<times> nat) list \<Rightarrow> (float64 \<times> float64 \<times> float64) list" where
  "change_rows ((v, n) # (v', n') # runs) =
     (Fin v, Fin v', Fin (real n)) # change_rows ((v', n') # runs)"
| "change_rows _ = []"

text \<open>The same rows, the first with an undetermined (NaN) lifetime.\<close>

definition table_of_runs :: "(real \<times> nat) list \<Rightarrow> (float64 \<times> float64 \<times> float64) list" where
  "table_of_runs runs =
     (case change_rows runs of [] \<Rightarrow> [] | (y, ya, l) # rows \<Rightarrow> (y, ya, NaN) # rows)"

text \<open>The run-length encoding of a signal of numbers.\<close>

fun rle :: "real list \<Rightarrow> (real \<times> nat) list" where
  "rle [] = []"
| "rle (x # xs) =
     (case rle xs of
        [] \<Rightarrow> [(x, 1)]
      | (v, n) # runs \<Rightarrow> if v = x then (v, Suc n) # runs else (x, 1) # (v, n) # runs)"

text \<open>A signal with four runs, used as a concrete input below.\<close>

definition four_runs :: "(real \<times> nat) list" where
  "four_runs = [(1/2, 2), (4/5, 3), (1/2, 1), (1/5, 4)]"

text \<open>
  Auxiliary functions for the proof: the rows of the table before duplicates are dropped,
  produced in one pass (running jump count, previous value, frame number, and the value
  that \<^verbatim>\<open>np.roll\<close> wraps around); dropping duplicates when equal keys are adjacent; and
  the rows kept for a signal given by its runs.
\<close>

fun jump :: "float64 option \<Rightarrow> float64 \<Rightarrow> bool" where
  "jump None y = False"
| "jump (Some p) y = fgt (fabs (fsub y p)) (Fin 0)"

fun rows_from ::
  "nat \<Rightarrow> float64 option \<Rightarrow> nat \<Rightarrow> float64 \<Rightarrow> float64 list \<Rightarrow> (nat \<times> float64 \<times> float64 \<times> nat) list"
where
  "rows_from acc prev t w [] = []"
| "rows_from acc prev t w (y # ys) =
     (acc + (if jump prev y then 1 else 0), y, (case ys of [] \<Rightarrow> w | y' # _ \<Rightarrow> y'), t)
       # rows_from (acc + (if jump prev y then 1 else 0)) (Some y) (t + 1) w ys"

fun keep_run_ends :: "('k \<times> 'r) list \<Rightarrow> ('k \<times> 'r) list" where
  "keep_run_ends (r # r' # rs) =
     (if fst r = fst r' then keep_run_ends (r' # rs) else r # keep_run_ends (r' # rs))"
| "keep_run_ends rs = rs"

fun kept_rows ::
  "nat \<Rightarrow> nat \<Rightarrow> float64 \<Rightarrow> (real \<times> nat) list \<Rightarrow> (nat \<times> float64 \<times> float64 \<times> nat) list"
where
  "kept_rows sj t w [] = []"
| "kept_rows sj t w ((v, n) # runs) =
     (sj, Fin v, (case runs of [] \<Rightarrow> w | (v', n') # _ \<Rightarrow> Fin v'), t + n - 1)
       # kept_rows (sj + 1) (t + n) w runs"

section \<open>ASCII trace files\<close>

text \<open>
  Modelled from the spec: the trace object (\<^verbatim>\<open>TraceContainer\<close>, whose class is not among
  the sources) with the fields that \<^verbatim>\<open>exportTraces\<close> and \<^verbatim>\<open>loadTraceFromAscii\<close> read
  and write: the movie name and pair number, per channel the raw intensity, the
  background and the bleach frame, the derived E (\<open>fret\<close>) and S (\<open>stoi\<close>) sequences, and
  the optional classifier output with its summary.
\<close>

record trace =
  movie :: string
  pair_n :: nat
  grn_int :: "float64 list"
  grn_bg :: "float64 list"
  acc_int :: "float64 list"
  acc_bg :: "float64 list"
  red_int :: "float64 list"
  red_bg :: "float64 list"
  grn_bleach :: "nat option"
  red_bleach :: "nat option"
  fret :: "float64 list"
  stoi :: "float64 list"
  y_pred :: "matrix option"
  y_class :: "float64 list option"
  confidence :: "float64 option"

text \<open>
  Modelled from the spec: \<^verbatim>\<open>trace.intensities()\<close>, the six arrays in the order in which
  \<^verbatim>\<open>correctDA\<close> unpacks them.
\<close>

definition intensities_of :: "trace \<Rightarrow> intensities" where
  "intensities_of t = (grn_int t, grn_bg t, acc_int t, acc_bg t, red_int t, red_bg t)"

text \<open>
  Modelled from the spec: a trace file as the reading helpers \<^verbatim>\<open>lib.misc.seek_line\<close>
  and \<^verbatim>\<open>lib.misc.csv_skip_to\<close> (not among the sources) and \<^verbatim>\<open>pandas.read_csv\<close> hand
  it to \<^verbatim>\<open>loadTraceFromAscii\<close>: whether its first line is \<^verbatim>\<open>Exported by iSMS\<close>, the
  three header lines that are looked up by their markers (a line may be missing, or
  present with a number that does not parse), and the table of numbers as a data frame,
  that is its named columns in order. The text of the table is not modelled: reading a
  table returns the numbers that were written.
\<close>

type_synonym dataframe = "(string \<times> float64 list) list"

datatype 'a header_line = Missing | Malformed | Parsed 'a

record ascii_file =
  first_line_iSMS :: bool
  pair_line :: "nat header_line"
  movie_line :: "string option"
  bleach_line :: "(nat option \<times> nat option) header_line"
  table :: dataframe




definition rows_of_columns :: "float64 list list \<Rightarrow> float64 list list" where
  "rows_of_columns cols =
     (case cols of [] \<Rightarrow> [] | c # _ \<Rightarrow> map (\<lambda>i. map (\<lambda>col. col ! i) cols) [0..<length c])"

definition ml_cols :: "string list" where
  "ml_cols = [''p_blch'', ''p_aggr'', ''p_stat'', ''p_dyna'', ''p_nois'', ''p_scrm'']"


text \<open>Renaming the columns by position, and reading a column by name.\<close>

definition set_columns :: "dataframe \<Rightarrow> string list \<Rightarrow> error + dataframe" where
  "set_columns df names =
     (if length names \<noteq> length df then Inl ValueError else Inr (zip names (map snd df)))"

definition getcol :: "dataframe \<Rightarrow> string \<Rightarrow> error + float64 list" where
  "getcol df name = (case map_of df name of None \<Rightarrow> Inl KeyError | Some vals \<Rightarrow> Inr vals)"

fun getcols :: "dataframe \<Rightarrow> string list \<Rightarrow> error + float64 list list" where
  "getcols df [] = Inr []"
| "getcols df (name # names) =
     bindE (getcol df name) (\<lambda>c. bindE (getcols df names) (\<lambda>cs. Inr (c # cs)))"

definition strip_dots :: "string \<Rightarrow> string" where
  "strip_dots s =
     rev (dropWhile (\<lambda>c. c = CHR ''.'') (rev (dropWhile (\<lambda>c. c = CHR ''.'') s)))"

definition colnames0 :: "string list" where
  "colnames0 = [''D-Dexc-bg.'', ''A-Dexc-bg.'', ''A-Aexc-bg.'',
                ''D-Dexc-rw.'', ''A-Dexc-rw.'', ''A-Aexc-rw.'', ''S'', ''E'']"

text \<open>
  The first part of \<^verbatim>\<open>loadTraceFromAscii\<close>: an iSMS table has no header line and gets
  the eight names or, when it has another number of columns, the last five; any other
  table keeps the names of its own header line. (The test
  \<^verbatim>\<open>len(df.columns) == colnames\<close> compares a number with a list and is never true.)
\<close>

definition read_table :: "ascii_file \<Rightarrow> error + (dataframe \<times> string list)" where
  "read_table f =
     (if first_line_iSMS f then
        (case set_columns (table f) colnames0 of
           Inr df \<Rightarrow> Inr (df, colnames0)
         | Inl e \<Rightarrow> bindE (set_columns (table f) (drop 3 colnames0)) (\<lambda>df. Inr (df, drop 3 colnames0)))
      else Inr (table f, colnames0))"

text \<open>
  The channels of the trace: from the three columns of the older format with zero
  backgrounds, or from the raw columns after the positional renaming, with zero
  backgrounds when a background column is missing; with the classifier output and its
  summary when the table has a \<^verbatim>\<open>p_blch\<close> column.
\<close>

definition read_channels ::
  "dataframe \<Rightarrow> string list \<Rightarrow>
   error + (intensities \<times> (matrix \<times> float64 list \<times> float64) option)"
where
  "read_channels df colnames =
     (if ''D-Dexc_F'' \<in> fst ` set df then
        bindE (getcol df ''D-Dexc_F'') (\<lambda>g.
        bindE (getcol df ''A-Dexc_I'') (\<lambda>a.
        bindE (getcol df ''A-Aexc_I'') (\<lambda>r.
        let zeros = replicate (length g) (Fin 0)
        in Inr ((g, zeros, a, zeros, r, zeros), None))))
      else
        bindE (if ''p_blch'' \<in> fst ` set df then
                 bindE (getcols df ml_cols) (\<lambda>cols.
                 let yp = (6, rows_of_columns cols) in
                 bindE (seq_probabilities yp (1 / 2) 0) (\<lambda>(p, c).
                 Inr (colnames @ ml_cols, Some (yp, p, c))))
               else Inr (colnames, None)) (\<lambda>(colnames', ml).
        bindE (set_columns df (map strip_dots colnames')) (\<lambda>df'.
        bindE (getcol df' ''D-Dexc-rw'') (\<lambda>g.
        bindE (getcol df' ''A-Dexc-rw'') (\<lambda>a.
        bindE (getcol df' ''A-Aexc-rw'') (\<lambda>r.
        let zeros = replicate (length g) (Fin 0) in
        (case (getcol df' ''D-Dexc-bg'', getcol df' ''A-Dexc-bg'', getcol df' ''A-Aexc-bg'') of
           (Inr gb, Inr ab, Inr rb) \<Rightarrow> Inr ((g, gb, a, ab, r, rb), ml)
         | _ \<Rightarrow> Inr ((g, zeros, a, zeros, r, zeros), ml))))))))"

text \<open>
  \<^verbatim>\<open>loadTraceFromAscii\<close>, in the order of the source: the table is read; a missing pair
  or movie line gives no trace (None), a pair number that does not parse raises
  ValueError; the channels are read; E and S are computed by \<^verbatim>\<open>calcFRET\<close> and
  \<^verbatim>\<open>calcStoi\<close> with their default arguments; a table without rows raises ValueError at
  \<^verbatim>\<open>trace.frames.max()\<close>; the bleach frames are set when their line parses.
\<close>

definition build_trace ::
  "ascii_file \<Rightarrow> string \<Rightarrow> nat \<Rightarrow> intensities \<Rightarrow> (matrix \<times> float64 list \<times> float64) option \<Rightarrow>
   float64 list \<Rightarrow> float64 list \<Rightarrow> trace"
where
  "build_trace f mv pn ints ml E S =
     (case ints of (g, gb, a, ab, r, rb) \<Rightarrow>
       \<lparr>movie = mv, pair_n = pn,
        grn_int = g, grn_bg = gb, acc_int = a, acc_bg = ab, red_int = r, red_bg = rb,
        grn_bleach = (case bleach_line f of Parsed (gbl, rbl) \<Rightarrow> gbl | _ \<Rightarrow> None),
        red_bleach = (case bleach_line f of Parsed (gbl, rbl) \<Rightarrow> rbl | _ \<Rightarrow> None),
        fret = E, stoi = S,
        y_pred = map_option fst ml,
        y_class = map_option (\<lambda>(yp, p, c). p) ml,
        confidence = map_option (\<lambda>(yp, p, c). c) ml\<rparr>)"

definition load_channels_and_signals ::
  "ascii_file \<Rightarrow> dataframe \<Rightarrow> string list \<Rightarrow> string \<Rightarrow> nat \<Rightarrow> error + trace option"
where
  "load_channels_and_signals f df colnames mv pn =
     bindE (read_channels df colnames) (\<lambda>(ints, ml).
     bindE (calcFRET ints 0 0 default_clip) (\<lambda>E.
     bindE (calcStoi ints 0 0 1 1 default_clip) (\<lambda>S.
     if length (fst ints) = 0 then Inl ValueError
     else Inr (Some (build_trace f mv pn ints ml E S)))))"

definition loadTraceFromAscii :: "ascii_file \<Rightarrow> error + trace option" where
  "loadTraceFromAscii f =
     bindE (read_table f) (\<lambda>(df, colnames).
     case pair_line f of
       Missing \<Rightarrow> Inr None
     | Malformed \<Rightarrow> Inl ValueError
     | Parsed pn \<Rightarrow>
         (case movie_line f of
            None \<Rightarrow> Inr None
          | Some mv \<Rightarrow> load_channels_and_signals f df colnames mv pn))"

text \<open>
  A trace file as \<^verbatim>\<open>exportTraces\<close> lays it out, given its header values and its eight
  columns.
\<close>

definition standard_file ::
  "string \<Rightarrow> nat \<Rightarrow> nat option \<times> nat option \<Rightarrow> intensities \<Rightarrow> float64 list \<Rightarrow> float64 list \<Rightarrow> ascii_file"
where
  "standard_file mv pn bl ints S E =
     (case ints of (g, gb, a, ab, r, rb) \<Rightarrow>
        \<lparr>first_line_iSMS = False, pair_line = Parsed pn, movie_line = Some mv,
         bleach_line = Parsed bl,
         table = [(''D-Dexc-bg'', gb), (''A-Dexc-bg'', ab), (''A-Aexc-bg'', rb),
                  (''D-Dexc-rw'', g), (''A-Dexc-rw'', a), (''A-Aexc-rw'', r),
                  (''S'', S), (''E'', E)]\<rparr>)"




section \<open>Verified properties\<close>

subsection \<open>Correction engine: clipping\<close>

lemma clip_in_range_or_nan:
  "cmin \<le> cmax \<Longrightarrow> isnan (clip cmin cmax e) \<or> in_clip_range cmin cmax (clip cmin cmax e)"
  by (cases e) (auto simp: in_clip_range_def)

lemma bindE_Inr_iff:
  "bindE m f = Inr r \<longleftrightarrow> (\<exists>v. m = Inr v \<and> f v = Inr r)"
  by (cases m) (auto simp: bindE_def)

lemma ew2_same_length:
  "length xs = length ys \<Longrightarrow> ew2 f xs ys = Inr (map2 f xs ys)"
  by (simp add: ew2_def)

lemma calcFRET_is_clipped:
  "calcFRET intens alpha delta (cmin, cmax) = Inr E \<Longrightarrow> \<exists>U. E = map (clip cmin cmax) U"
  by (auto simp: calcFRET_def bindE_Inr_iff)

lemma calcStoi_is_clipped:
  "calcStoi intens alpha delta beta gamma (cmin, cmax) = Inr S \<Longrightarrow>
   \<exists>U. S = map (clip cmin cmax) U"
  by (auto simp: calcStoi_def bindE_Inr_iff Let_def split: if_splits)



lemma clip_saturates:
  "cmin \<le> cmax \<Longrightarrow>
   clip cmin cmax r =
     (case r of Fin x \<Rightarrow> Fin (if x < cmin then cmin else if cmax < x then cmax else x)
      | PInf \<Rightarrow> Fin cmax | NInf \<Rightarrow> Fin cmin | NaN \<Rightarrow> NaN)"
  by (cases r) auto

lemma calc_frames:
  assumes "length gi = n" "length gb = n" "length ai = n" "length ab = n"
    "length ri = n" "length rb = n" "beta \<noteq> 0"
  shows "calcFRET (gi, gb, ai, ab, ri, rb) alpha delta (cmin, cmax) =
      Inr (map (\<lambda>i.
        let I_DD = fsub (gi ! i) (gb ! i); I_DA = fsub (ai ! i) (ab ! i);
            I_AA = fsub (ri ! i) (rb ! i);
            F_DA = fsub (fsub I_DA (fmul (Fin alpha) I_DD)) (fmul (Fin delta) I_AA)
        in clip cmin cmax (fdiv F_DA (fadd I_DD F_DA))) [0..<n])"
    and "calcStoi (gi, gb, ai, ab, ri, rb) alpha delta beta gamma (cmin, cmax) =
      Inr (map (\<lambda>i.
        let I_DD = fsub (gi ! i) (gb ! i); I_DA = fsub (ai ! i) (ab ! i);
            I_AA = fsub (ri ! i) (rb ! i);
            F_DA = fsub (fsub I_DA (fmul (Fin alpha) I_DD)) (fmul (Fin delta) I_AA);
            num = fadd (fmul (Fin gamma) I_DD) F_DA
        in clip cmin cmax (fdiv num (fadd num (fmul (Fin (1 / beta)) I_AA)))) [0..<n])"
  using assms
  by (auto simp: calcFRET_def calcStoi_def correctDA_def bindE_def ew2_same_length Let_def
      intro!: nth_equalityI)

text \<open>
  Claim C5, as the code has it. For a clip range with \<open>cmin \<le> cmax\<close>, every element of
  the E sequence returned by \<^verbatim>\<open>calcFRET\<close> and of the S sequence returned by
  \<^verbatim>\<open>calcStoi\<close> is either NaN or a number within \<open>[cmin, cmax]\<close>. Whenever the six arrays
  have one entry per frame and \<open>beta\<close> is not zero, both functions return one value per
  frame, and that value is fixed by the frame's unclipped ratio: a ratio in the range is
  returned as it is, a ratio above \<open>cmax\<close> (also \<open>+\<infinity>\<close>, a positive numerator over zero)
  gives \<open>cmax\<close>, a ratio below \<open>cmin\<close> (also \<open>-\<infinity>\<close>) gives \<open>cmin\<close>, and a NaN ratio
  (\<open>0 / 0\<close>) stays NaN.
\<close>

theorem calc_outputs_clipped_or_nan:
  assumes "cmin \<le> cmax"
  shows "(\<forall>E. calcFRET intens alpha delta (cmin, cmax) = Inr E \<longrightarrow>
            (\<forall>e\<in>set E. isnan e \<or> in_clip_range cmin cmax e))
       \<and> (\<forall>S. calcStoi intens alpha delta beta gamma (cmin, cmax) = Inr S \<longrightarrow>
            (\<forall>e\<in>set S. isnan e \<or> in_clip_range cmin cmax e))
       \<and> (\<forall>gi gb ai ab ri rb n.
            intens = (gi, gb, ai, ab, ri, rb) \<and> length gi = n \<and> length gb = n \<and>
            length ai = n \<and> length ab = n \<and> length ri = n \<and> length rb = n \<and> beta \<noteq> 0 \<longrightarrow>
            (\<exists>E S. calcFRET intens alpha delta (cmin, cmax) = Inr E
               \<and> calcStoi intens alpha delta beta gamma (cmin, cmax) = Inr S
               \<and> length E = n \<and> length S = n
               \<and> (\<forall>i<n.
                    let I_DD = fsub (gi ! i) (gb ! i); I_DA = fsub (ai ! i) (ab ! i);
                        I_AA = fsub (ri ! i) (rb ! i);
                        F_DA = fsub (fsub I_DA (fmul (Fin alpha) I_DD)) (fmul (Fin delta) I_AA);
                        num = fadd (fmul (Fin gamma) I_DD) F_DA
                    in E ! i =
                         (case fdiv F_DA (fadd I_DD F_DA) of
                            Fin x \<Rightarrow> Fin (if x < cmin then cmin else if cmax < x then cmax else x)
                          | PInf \<Rightarrow> Fin cmax | NInf \<Rightarrow> Fin cmin | NaN \<Rightarrow> NaN)
                     \<and> S ! i =
                         (case fdiv num (fadd num (fmul (Fin (1 / beta)) I_AA)) of
                            Fin x \<Rightarrow> Fin (if x < cmin then cmin else if cmax < x then cmax else x)
                          | PInf \<Rightarrow> Fin cmax | NInf \<Rightarrow> Fin cmin | NaN \<Rightarrow> NaN))))"
proof (intro conjI allI impI)
  fix E assume "calcFRET intens alpha delta (cmin, cmax) = Inr E"
  then obtain U where "E = map (clip cmin cmax) U"
    using calcFRET_is_clipped by blast
  then show "\<forall>e\<in>set E. isnan e \<or> in_clip_range cmin cmax e"
    using clip_in_range_or_nan [OF assms] by auto
next
  fix S assume "calcStoi intens alpha delta beta gamma (cmin, cmax) = Inr S"
  then obtain U where "S = map (clip cmin cmax) U"
    using calcStoi_is_clipped by blast
  then show "\<forall>e\<in>set S. isnan e \<or> in_clip_range cmin cmax e"
    using clip_in_range_or_nan [OF assms] by auto
next
  fix gi gb ai ab ri rb n
  assume a: "intens = (gi, gb, ai, ab, ri, rb) \<and> length gi = n \<and> length gb = n \<and>
            length ai = n \<and> length ab = n \<and> length ri = n \<and> length rb = n \<and> beta \<noteq> 0"
  then have l: "length gi = n" "length gb = n" "length ai = n" "length ab = n"
      "length ri = n" "length rb = n" "beta \<noteq> 0"
    by simp_all
  show "\<exists>E S. calcFRET intens alpha delta (cmin, cmax) = Inr E
               \<and> calcStoi intens alpha delta beta gamma (cmin, cmax) = Inr S
               \<and> length E = n \<and> length S = n
               \<and> (\<forall>i<n.
                    let I_DD = fsub (gi ! i) (gb ! i); I_DA = fsub (ai ! i) (ab ! i);
                        I_AA = fsub (ri ! i) (rb ! i);
                        F_DA = fsub (fsub I_DA (fmul (Fin alpha) I_DD)) (fmul (Fin delta) I_AA);
                        num = fadd (fmul (Fin gamma) I_DD) F_DA
                    in E ! i =
                         (case fdiv F_DA (fadd I_DD F_DA) of
                            Fin x \<Rightarrow> Fin (if x < cmin then cmin else if cmax < x then cmax else x)
                          | PInf \<Rightarrow> Fin cmax | NInf \<Rightarrow> Fin cmin | NaN \<Rightarrow> NaN)
                     \<and> S ! i =
                         (case fdiv num (fadd num (fmul (Fin (1 / beta)) I_AA)) of
                            Fin x \<Rightarrow> Fin (if x < cmin then cmin else if cmax < x then cmax else x)
                          | PInf \<Rightarrow> Fin cmax | NInf \<Rightarrow> Fin cmin | NaN \<Rightarrow> NaN))"
    using a unfolding calc_frames [OF l] 
    by (simp add: calc_frames [OF l] Let_def clip_saturates [OF assms])
qed

text \<open>
  The theorem at six frames and the default clip range: a ratio in the range, one above
  it, \<open>+\<infinity>\<close>, one below it, \<open>0 / 0\<close>, and \<open>-\<infinity>\<close> for E.
\<close>

theorem calc_outputs_clipped_or_nan_witness:
  "calcFRET extreme_frames 0 0 default_clip
     = Inr [Fin (1 / 2), Fin (13 / 10), Fin (13 / 10), Fin (- 3 / 10), NaN, Fin (- 3 / 10)]
   \<and> calcStoi extreme_frames 0 0 1 1 default_clip
     = Inr [Fin (4 / 7), Fin (13 / 10), Fin 0, Fin (13 / 10), NaN, Fin 0]"
proof -
  have h: "(- 3 / 10 :: real) \<le> 13 / 10" by simp
  have E: "calcFRET extreme_frames 0 0 (- 3 / 10, 13 / 10)
     = Inr [Fin (1 / 2), Fin (13 / 10), Fin (13 / 10), Fin (- 3 / 10), NaN, Fin (- 3 / 10)]"
    by (simp add: extreme_frames_def calcFRET_def correctDA_def bindE_def ew2_def fsub_def)
  have S: "calcStoi extreme_frames 0 0 1 1 (- 3 / 10, 13 / 10)
     = Inr [Fin (4 / 7), Fin (13 / 10), Fin 0, Fin (13 / 10), NaN, Fin 0]"
    by (simp add: extreme_frames_def calcStoi_def correctDA_def bindE_def ew2_def fsub_def)
  from calc_outputs_clipped_or_nan [OF h, of extreme_frames 0 0 1 1] E S
  show ?thesis by (simp add: default_clip_def)
qed

text \<open>
  The claim as stated fails where a frame's signals equal their backgrounds: the
  unclipped ratio is \<open>0 / 0\<close>, and clipping leaves NaN as it is.
\<close>

theorem calc_outputs_nan_counterexample:
  "calcFRET dark_frame 0 0 default_clip = Inr [NaN]
   \<and> calcStoi dark_frame 0 0 1 1 default_clip = Inr [NaN]
   \<and> \<not> in_clip_range (- 3 / 10) (13 / 10) NaN"
  by (simp add: dark_frame_def calcFRET_def calcStoi_def correctDA_def
      default_clip_def bindE_def ew2_def fsub_def in_clip_range_def)

subsection \<open>Bleach detection\<close>

lemma insort_True_bools:
  "insort True (replicate a False @ replicate b True) = replicate a False @ replicate (Suc b) True"
  by (induction a; cases b) (auto simp: replicate_app_Cons_same)

lemma insort_False_bools:
  "insort False (replicate a False @ replicate b True) = replicate (Suc a) False @ replicate b True"
  by (cases a; cases b) auto

lemma sort_bools:
  "sort (ws :: bool list) =
     replicate (length (filter Not ws)) False @ replicate (length (filter id ws)) True"
proof (induction ws)
  case Nil show ?case by simp
next
  case (Cons w ws)
  then show ?case
    by (cases w) (simp_all add: insort_True_bools insort_False_bools del: replicate.simps)
qed

lemma median_bools:
  assumes "length ws = 2 * h + 1"
  shows "median ws = (h < length (filter id ws))"
proof -
  have "length (filter Not ws) + length (filter id ws) = length ws"
    using sum_length_filter_compl [of id ws] by (simp add: add.commute comp_def)
  then show ?thesis using assms
    by (auto simp: median_def sort_bools nth_append)
qed

lemma window_at_length [simp]: "length (window_at xs h i) = 2 * h + 1"
  by (simp add: window_at_def)

lemma medfilt_nth:
  assumes "w mod 2 = 1" "i < length xs"
  shows "medfilt xs w = Inr fs \<Longrightarrow> fs ! i = (w div 2 < length (filter id (window_at xs (w div 2) i)))"
  using assms by (auto simp: medfilt_def median_bools)

lemma filter_upt_le:
  assumes "\<And>j. j < m \<Longrightarrow> P j \<Longrightarrow> a \<le> j"
  shows "length (filter P [0..<m]) \<le> m - a"
proof -
  have "filter P [0..<m] = filter P [a..<m]"
  proof (cases "a \<le> m")
    case True
    then have "[0..<m] = [0..<a] @ [a..<m]"
      by (metis le0 upt_add_eq_append le_add_diff_inverse)
    moreover have "\<not> P j" if "j < a" for j
      using assms [of j] that True by fastforce
    then have "filter P [0..<a] = []"
      by (auto simp: filter_empty_conv)
    ultimately show ?thesis by simp
  next
    case False
    have "\<not> P j" if "j < m" for j
      using assms [of j] that False by fastforce
    then have "filter P [0..<m] = []" by (auto simp: filter_empty_conv)
    then show ?thesis using False by simp
  qed
  then have "length (filter P [0..<m]) \<le> length [a..<m]"
    by (metis length_filter_le)
  then show ?thesis by simp
qed

lemma filter_upt_ge:
  assumes "a \<le> m" "\<And>j. a \<le> j \<Longrightarrow> j < m \<Longrightarrow> P j"
  shows "m - a \<le> length (filter P [0..<m])"
proof -
  have "[0..<m] = [0..<a] @ [a..<m]"
    using assms(1) by (metis le0 upt_add_eq_append le_add_diff_inverse)
  moreover have "filter P [a..<m] = [a..<m]"
    using assms(2) by (auto simp: filter_id_conv)
  ultimately show ?thesis by simp
qed

lemma window_count:
  "length (filter id (window_at xs h i)) =
   length (filter (\<lambda>j. h \<le> i + j \<and> i + j - h < length xs \<and> xs ! (i + j - h)) [0..<2 * h + 1])"
proof -
  let ?f = "\<lambda>j. if h \<le> i + j \<and> i + j - h < length xs then xs ! (i + j - h) else False"
  have "id \<circ> ?f = (\<lambda>j. h \<le> i + j \<and> i + j - h < length xs \<and> xs ! (i + j - h))"
    by (auto simp: fun_eq_iff)
  then show ?thesis
    unfolding window_at_def filter_map length_map by (rule arg_cong)
qed

lemma medfilt_before_run:
  assumes w: "w mod 2 = 1" and i: "i < k" "i < length xs"
    and before: "\<And>j. j < k \<Longrightarrow> j < length xs \<Longrightarrow> \<not> xs ! j"
    and m: "medfilt xs w = Inr fs"
  shows "\<not> fs ! i"
proof -
  define h where "h = w div 2"
  let ?P = "\<lambda>j. h \<le> i + j \<and> i + j - h < length xs \<and> xs ! (i + j - h)"
  have "h + 1 \<le> j" if "j < 2 * h + 1" "?P j" for j
  proof (rule ccontr)
    assume "\<not> h + 1 \<le> j"
    then have "i + j - h < k" using i by linarith
    then show False using before [of "i + j - h"] that by blast
  qed
  then have "length (filter ?P [0..<2 * h + 1]) \<le> 2 * h + 1 - (h + 1)"
    by (rule filter_upt_le)
  then have "\<not> h < length (filter id (window_at xs h i))"
    by (simp add: window_count)
  then show ?thesis
    using medfilt_nth [OF w i(2) m] by (simp add: h_def)
qed

lemma medfilt_at_run:
  assumes w: "w mod 2 = 1"
    and run: "\<And>j. k \<le> j \<Longrightarrow> j < k + w \<Longrightarrow> j < length xs \<and> xs ! j"
    and m: "medfilt xs w = Inr fs"
  shows "k < length xs \<and> fs ! k"
proof -
  define h where "h = w div 2"
  have wh: "w = 2 * h + 1" using w by (simp add: h_def) presburger
  have k: "k < length xs" using run [of k] wh by simp
  let ?P = "\<lambda>j. h \<le> k + j \<and> k + j - h < length xs \<and> xs ! (k + j - h)"
  have "?P j" if "h \<le> j" "j < 2 * h + 1" for j
    using run [of "k + j - h"] that wh by auto
  then have "2 * h + 1 - h \<le> length (filter ?P [0..<2 * h + 1])"
    by (intro filter_upt_ge) auto
  then have "h < length (filter id (window_at xs h k))"
    by (simp add: window_count)
  then show ?thesis
    using medfilt_nth [OF w k m] k by (simp add: h_def)
qed

lemma argmax_loop_True: "argmax_loop xs i True mi = mi"
  by (induction xs arbitrary: i) auto

lemma argmax_loop_none: "\<forall>x\<in>set xs. \<not> x \<Longrightarrow> argmax_loop xs i False mi = mi"
  by (induction xs arbitrary: i) auto

lemma argmax_loop_first:
  "j < length xs \<Longrightarrow> xs ! j \<Longrightarrow> (\<And>l. l < j \<Longrightarrow> \<not> xs ! l) \<Longrightarrow>
   argmax_loop xs i False mi = i + j"
proof (induction xs arbitrary: i j)
  case Nil
  then show ?case by simp
next
  case (Cons x xs)
  show ?case
  proof (cases j)
    case 0
    then show ?thesis using Cons.prems by (simp add: argmax_loop_True)
  next
    case (Suc j')
    have x: "\<not> x" using Cons.prems(3) [of 0] Suc by simp
    have "argmax_loop xs (i + 1) False mi = i + 1 + j'"
    proof (rule Cons.IH)
      show "j' < length xs" using Cons.prems(1) Suc by simp
      show "xs ! j'" using Cons.prems(2) Suc by simp
      show "\<not> xs ! l" if "l < j'" for l using Cons.prems(3) [of "Suc l"] that Suc by simp
    qed
    then show ?thesis using x Suc by simp
  qed
qed

lemma argmax_leading: "fs \<noteq> [] \<Longrightarrow> fs ! 0 \<Longrightarrow> argmax fs = Inr 0"
  by (cases fs) (auto simp: argmax_def argmax_loop_True)

lemma argmax_never: "fs \<noteq> [] \<Longrightarrow> (\<And>i. i < length fs \<Longrightarrow> \<not> fs ! i) \<Longrightarrow> argmax fs = Inr 0"
proof (cases fs)
  case Nil
  assume "fs \<noteq> []" then show ?thesis using Nil by simp
next
  case (Cons x xs)
  assume h: "\<And>i. i < length fs \<Longrightarrow> \<not> fs ! i"
  have "\<not> x" using h [of 0] Cons by simp
  moreover have "\<forall>y\<in>set xs. \<not> y"
  proof
    fix y assume "y \<in> set xs"
    then obtain l where "l < length xs" "xs ! l = y" by (auto simp: in_set_conv_nth)
    then show "\<not> y" using h [of "Suc l"] Cons by auto
  qed
  ultimately show ?thesis using Cons by (simp add: argmax_def argmax_loop_none)
qed

lemma argmax_first:
  assumes "0 < k" "k < length fs" "fs ! k" "\<And>i. i < k \<Longrightarrow> \<not> fs ! i"
  shows "argmax fs = Inr k"
proof (cases fs)
  case Nil
  then show ?thesis using assms by simp
next
  case (Cons x xs)
  obtain j where j: "k = Suc j" using assms(1) by (cases k) auto
  have x: "\<not> x" using assms(4) [of 0] assms(1) Cons by simp
  have "argmax_loop xs 1 False 0 = 1 + j"
  proof (rule argmax_loop_first)
    show "j < length xs" using assms(2) j Cons by simp
    show "xs ! j" using assms(3) j Cons by simp
    show "\<not> xs ! l" if "l < j" for l using assms(4) [of "Suc l"] that j Cons by simp
  qed
  then show ?thesis using x j Cons by (simp add: argmax_def)
qed

lemma medfilt_length: "medfilt xs w = Inr fs \<Longrightarrow> length fs = length xs"
  by (auto simp: medfilt_def split: if_splits)

lemma find_bleach_of_filtered:
  "medfilt (thresholded p t) w = Inr fs \<Longrightarrow> argmax fs = Inr a \<Longrightarrow>
   find_bleach p t w = Inr (if a = 0 then None else Some a)"
  by (simp add: find_bleach_def bindE_def)

text \<open>
  Claim C6, for every odd window (the default is 7). If the thresholded and median-filtered
  series is True from frame 0 onward, \<^verbatim>\<open>find_bleach\<close> returns None. If the thresholded
  series is False before frame \<open>k > 0\<close> and True on the \<open>window\<close> frames from \<open>k\<close> on,
  it returns \<open>k\<close>; so it does whenever the filtered series is False before \<open>k > 0\<close> and
  True at \<open>k\<close>.
\<close>

theorem find_bleach_leading_and_onset:
  assumes w: "window mod 2 = 1"
  shows "(\<forall>fs. medfilt (thresholded p t) window = Inr fs \<and> fs \<noteq> [] \<and> (\<forall>i<length fs. fs ! i)
            \<longrightarrow> find_bleach p t window = Inr None)
       \<and> (\<forall>k. 0 < k \<and> (\<forall>i<k. i < length p \<longrightarrow> \<not> thresholded p t ! i)
              \<and> (\<forall>i. k \<le> i \<and> i < k + window \<longrightarrow> i < length p \<and> thresholded p t ! i)
            \<longrightarrow> find_bleach p t window = Inr (Some k))
       \<and> (\<forall>fs k. medfilt (thresholded p t) window = Inr fs \<and> 0 < k \<and> k < length fs
              \<and> (\<forall>i<k. \<not> fs ! i) \<and> fs ! k
            \<longrightarrow> find_bleach p t window = Inr (Some k))"
proof (intro conjI allI impI)
  fix fs
  assume h: "medfilt (thresholded p t) window = Inr fs \<and> fs \<noteq> [] \<and> (\<forall>i<length fs. fs ! i)"
  then have "argmax fs = Inr 0" by (intro argmax_leading) auto
  then show "find_bleach p t window = Inr None"
    using find_bleach_of_filtered [of p t window fs 0] h by simp
next
  fix k
  let ?xs = "thresholded p t"
  assume h: "0 < k \<and> (\<forall>i<k. i < length p \<longrightarrow> \<not> ?xs ! i)
              \<and> (\<forall>i. k \<le> i \<and> i < k + window \<longrightarrow> i < length p \<and> ?xs ! i)"
  have len: "length ?xs = length p" by (simp add: thresholded_def)
  obtain fs where m: "medfilt ?xs window = Inr fs"
    using w by (simp add: medfilt_def)
  have at: "k < length ?xs \<and> fs ! k"
    using h len by (intro medfilt_at_run [OF w _ m]) auto
  have before: "\<not> fs ! i" if "i < k" for i
  proof (rule medfilt_before_run [OF w that _ _ m])
    show "i < length ?xs" using that at by simp
    show "\<not> ?xs ! j" if "j < k" "j < length ?xs" for j using h that len by simp
  qed
  have "argmax fs = Inr k"
    using h at before medfilt_length [OF m] by (intro argmax_first) auto
  then show "find_bleach p t window = Inr (Some k)"
    using find_bleach_of_filtered [OF m, of k] h by simp
next
  fix fs k
  assume h: "medfilt (thresholded p t) window = Inr fs \<and> 0 < k \<and> k < length fs
              \<and> (\<forall>i<k. \<not> fs ! i) \<and> fs ! k"
  then have "argmax fs = Inr k" by (intro argmax_first) auto
  then show "find_bleach p t window = Inr (Some k)"
    using find_bleach_of_filtered [of p t window fs k] h by simp
qed

lemma onset_thr: "thresholded onset_series (1/2) = [False, False, True, True, True, True, True, True, True]"
  by (simp add: thresholded_def onset_series_def fgt_def)

lemma leading_filtered:
  "medfilt (thresholded leading_series (1/2)) 7 = Inr [True, True, True, True, True, True, True]"
  by code_simp

lemma quiet_filtered:
  "medfilt (thresholded quiet_series (1/2)) 7 = Inr [False, False, False, False, False]"
  by code_simp

text \<open>
  The theorem at a nine-frame series whose probability rises above the threshold at
  frame 2 and stays there, and at a seven-frame series that is above it throughout.
\<close>

theorem find_bleach_leading_and_onset_witness:
  "find_bleach onset_series (1/2) 7 = Inr (Some 2) \<and> find_bleach leading_series (1/2) 7 = Inr None"
proof -
  have w: "(7::nat) mod 2 = 1" by simp
  have len: "length onset_series = 9" by (simp add: onset_series_def)
  have h: "(0::nat) < 2 \<and> (\<forall>i<2. i < length onset_series \<longrightarrow> \<not> thresholded onset_series (1/2) ! i)
      \<and> (\<forall>i. 2 \<le> i \<and> i < 2 + 7 \<longrightarrow> i < length onset_series \<and> thresholded onset_series (1/2) ! i)"
    unfolding onset_thr len by (auto simp: nth_Cons' less_Suc_eq numeral_eq_Suc)
  have g: "medfilt (thresholded leading_series (1/2)) 7 = Inr [True, True, True, True, True, True, True]
      \<and> [True, True, True, True, True, True, True] \<noteq> []
      \<and> (\<forall>i<length [True, True, True, True, True, True, True]. [True, True, True, True, True, True, True] ! i)"
    by (simp add: leading_filtered nth_Cons')
  show ?thesis
    using find_bleach_leading_and_onset [OF w, of onset_series "1/2"] h
      find_bleach_leading_and_onset [OF w, of leading_series "1/2"] g
    by blast
qed

text \<open>
  Claim C10. For a series with at least one frame (on an empty array \<^verbatim>\<open>np.argmax\<close>
  raises ValueError) in which no frame of the thresholded and median-filtered series is
  True, \<^verbatim>\<open>np.argmax\<close> gives index 0 and \<^verbatim>\<open>find_bleach\<close> returns None; any series
  whose filtered series is True at frame 0 takes the same path (index 0) and returns the
  same value, so the two cannot be told apart from the result.
\<close>

theorem find_bleach_never_bleached:
  assumes w: "window mod 2 = 1" and p: "p \<noteq> []"
  shows "(\<exists>fs. medfilt (thresholded p t) window = Inr fs) \<and>
         (\<forall>fs. medfilt (thresholded p t) window = Inr fs \<and> (\<forall>i<length fs. \<not> fs ! i) \<longrightarrow>
              argmax fs = Inr 0 \<and> find_bleach p t window = Inr None \<and>
              (\<forall>q t' gs. medfilt (thresholded q t') window = Inr gs \<and> gs \<noteq> [] \<and> gs ! 0 \<longrightarrow>
                 argmax gs = Inr 0 \<and> find_bleach q t' window = find_bleach p t window))"
proof (rule conjI)
  show "\<exists>fs. medfilt (thresholded p t) window = Inr fs"
    using w by (simp add: medfilt_def)
next
  have "argmax fs = Inr 0 \<and> find_bleach p t window = Inr None \<and>
              (\<forall>q t' gs. medfilt (thresholded q t') window = Inr gs \<and> gs \<noteq> [] \<and> gs ! 0 \<longrightarrow>
                 argmax gs = Inr 0 \<and> find_bleach q t' window = find_bleach p t window)"
    if h: "medfilt (thresholded p t) window = Inr fs \<and> (\<forall>i<length fs. \<not> fs ! i)" for fs
  proof -
  from h have m: "medfilt (thresholded p t) window = Inr fs" by simp
  have ne: "fs \<noteq> []" using medfilt_length [OF m] p by (auto simp: thresholded_def)
  have a: "argmax fs = Inr 0" using ne h by (intro argmax_never) auto
  have f: "find_bleach p t window = Inr None"
    using find_bleach_of_filtered [OF m a] by simp
  have "argmax gs = Inr 0 \<and> find_bleach q t' window = find_bleach p t window"
    if g: "medfilt (thresholded q t') window = Inr gs \<and> gs \<noteq> [] \<and> gs ! 0" for q t' gs
  proof -
    have b: "argmax gs = Inr 0" using g by (intro argmax_leading) auto
    show ?thesis using find_bleach_of_filtered [of q t' window gs 0] g b f by simp
  qed
  then show ?thesis using a f by blast
  qed
  then show "\<forall>fs. medfilt (thresholded p t) window = Inr fs \<and> (\<forall>i<length fs. \<not> fs ! i) \<longrightarrow>
              argmax fs = Inr 0 \<and> find_bleach p t window = Inr None \<and>
              (\<forall>q t' gs. medfilt (thresholded q t') window = Inr gs \<and> gs \<noteq> [] \<and> gs ! 0 \<longrightarrow>
                 argmax gs = Inr 0 \<and> find_bleach q t' window = find_bleach p t window)"
    by blast
qed

text \<open>
  The theorem at a five-frame series with one isolated spike, which the median filter
  removes, against a series that is bleached from frame 0.
\<close>

theorem find_bleach_never_bleached_witness:
  "find_bleach quiet_series (1/2) 7 = Inr None
   \<and> find_bleach leading_series (1/2) 7 = find_bleach quiet_series (1/2) 7"
proof -
  have w: "(7::nat) mod 2 = 1" by simp
  have p: "quiet_series \<noteq> []" by (simp add: quiet_series_def)
  have h: "medfilt (thresholded quiet_series (1/2)) 7 = Inr [False, False, False, False, False]
      \<and> (\<forall>i<length [False, False, False, False, False]. \<not> [False, False, False, False, False] ! i)"
    by (simp add: quiet_filtered nth_Cons')
  have g: "medfilt (thresholded leading_series (1/2)) 7 = Inr [True, True, True, True, True, True, True]
      \<and> [True, True, True, True, True, True, True] \<noteq> [] \<and> [True, True, True, True, True, True, True] ! 0"
    by (simp add: leading_filtered)
  show ?thesis
    using find_bleach_never_bleached [OF w p, of "1/2"] h g by blast
qed

subsection \<open>Sequence-probability summary\<close>

text \<open>
  Claim C7 at a frame whose bleach probability equals the threshold. The frame does not
  exceed the threshold, yet the code drops it (it keeps a frame only when its bleach
  probability is below the threshold), so nothing is left and the result is the zero
  vector with confidence 0, not the frame's own probabilities with confidence \<open>1/5\<close>.
\<close>

theorem seq_probabilities_at_threshold:
  "seq_probabilities threshold_frame (1/2) 0 = Inr (replicate 6 (Fin 0), Fin 0)"
  by (simp add: seq_probabilities_def threshold_frame_def fsum_def numeral_eq_Suc)

lemma foldl_fadd_Fin: "foldl fadd (Fin a) (map Fin xs) = Fin (a + sum_list xs)"
  by (induction xs arbitrary: a) (auto simp: add.assoc)

lemma fsum_Fin: "fsum (map Fin xs) = Fin (sum_list xs)"
  by (simp add: fsum_def foldl_fadd_Fin)

lemma filter_Fin_rows:
  assumes "\<forall>r\<in>set rows. c < length r"
  shows "filter (\<lambda>r. flt (r ! c) (Fin t)) (map (map Fin) rows)
       = map (map Fin) (filter (\<lambda>r. r ! c < t) rows)"
  using assms by (induction rows) auto

lemma column_Fin_rows:
  assumes "\<forall>r\<in>set rows. j < length r"
  shows "column (map (map Fin) rows) j = map Fin (map (\<lambda>r. r ! j) rows)"
  using assms by (auto simp: column_def)

lemma sum_list_divide: "sum_list (map (\<lambda>j. f j / (d::real)) js) = sum_list (map f js) / d"
  by (induction js) (auto simp: add_divide_distrib)

text \<open>
  What the code does on a matrix of numbers with more than three columns: the frames
  whose entry in the skip column is at least the threshold are dropped. If none is left,
  the result is the zero vector with confidence 0. Otherwise, when the entries of the
  remaining frames do not add up to zero, the result is their per-class sums divided by
  the sum of all their entries, which adds up to 1, with the sum of its entries 2 and 3 as
  confidence.
\<close>

theorem seq_probabilities_kept_frames:
  assumes wf: "\<forall>r\<in>set rows. length r = m" and m: "3 < m" and c: "c < m"
  shows "(filter (\<lambda>r. r ! c < t) rows = [] \<longrightarrow>
            seq_probabilities (m, map (map Fin) rows) t c = Inr (replicate m (Fin 0), Fin 0))
       \<and> (filter (\<lambda>r. r ! c < t) rows \<noteq> []
            \<and> sum_list (map (colsum (filter (\<lambda>r. r ! c < t) rows)) [0..<m]) \<noteq> 0 \<longrightarrow>
            (\<exists>p. seq_probabilities (m, map (map Fin) rows) t c
                   = Inr (map Fin p, Fin (p ! 2 + p ! 3))
               \<and> p = map (\<lambda>j. colsum (filter (\<lambda>r. r ! c < t) rows) j
                          / sum_list (map (colsum (filter (\<lambda>r. r ! c < t) rows)) [0..<m])) [0..<m]
               \<and> sum_list p = 1))"
proof -
  define K where "K = filter (\<lambda>r. r ! c < t) rows"
  define T where "T = sum_list (map (colsum K) [0..<m])"
  define n where "n = real (length K)"
  have wfc: "\<forall>r\<in>set rows. c < length r" using wf c by simp
  have kept: "filter (\<lambda>r. flt (r ! c) (Fin t)) (map (map Fin) rows) = map (map Fin) K"
    unfolding K_def by (rule filter_Fin_rows [OF wfc])
  have wfK: "\<forall>r\<in>set K. length r = m" using wf by (simp add: K_def)
  have col: "fsum (column (map (map Fin) K) j) = Fin (colsum K j)" if "j < m" for j
  proof -
    have "column (map (map Fin) K) j = map Fin (map (\<lambda>r. r ! j) K)"
      using wfK that by (intro column_Fin_rows) simp
    then show ?thesis by (simp only: fsum_Fin colsum_def)
  qed
  have empty: "seq_probabilities (m, map (map Fin) rows) t c = Inr (replicate m (Fin 0), Fin 0)"
    if "K = []"
    using that m c by (simp add: seq_probabilities_def kept fsum_def)
  have full: "\<exists>p. seq_probabilities (m, map (map Fin) rows) t c = Inr (map Fin p, Fin (p ! 2 + p ! 3))
               \<and> p = map (\<lambda>j. colsum K j / T) [0..<m] \<and> sum_list p = 1"
    if ne: "K \<noteq> []" and T: "T \<noteq> 0"
  proof -
    have n: "n \<noteq> 0" using ne by (simp add: n_def)
    define KF where "KF = map (map Fin) K"
    define S where "S = map (\<lambda>j. fdiv (fsum (column KF j)) (Fin (real (length KF)))) [0..<m]"
    define P where "P = map (\<lambda>x. fdiv x (fsum S)) S"
    define sv where "sv = map (\<lambda>j. colsum K j / n) [0..<m]"
    define p where "p = map (\<lambda>j. colsum K j / T) [0..<m]"
    have run: "seq_probabilities (m, map (map Fin) rows) t c = Inr (P, fsum [P ! 2, P ! 3])"
      unfolding P_def S_def KF_def using ne m c
      by (simp add: seq_probabilities_def kept Let_def)
    have "S = map Fin sv"
      unfolding S_def sv_def KF_def using col n by (simp add: n_def)
    moreover have "sum_list sv = T / n"
      by (simp add: sv_def sum_list_divide T_def)
    moreover have tn: "T / n \<noteq> 0" using T n by simp
    ultimately have "P = map (\<lambda>x. fdiv x (Fin (T / n))) (map Fin sv)"
      by (simp only: P_def fsum_Fin)
    also have "\<dots> = map Fin (map (\<lambda>x. x / (T / n)) sv)"
      using tn by simp
    also have "map (\<lambda>x. x / (T / n)) sv = p"
      using n by (simp add: sv_def p_def)
    finally have P: "P = map Fin p" .
    have len: "length p = m" by (simp add: p_def)
    have conf: "fsum [map Fin p ! 2, map Fin p ! 3] = Fin (p ! 2 + p ! 3)"
      using m len by (simp add: fsum_def)
    have "seq_probabilities (m, map (map Fin) rows) t c = Inr (map Fin p, Fin (p ! 2 + p ! 3))"
      using run conf by (simp only: P)
    moreover have "sum_list p = 1"
      using T by (simp add: p_def sum_list_divide T_def [symmetric])
    ultimately show ?thesis using p_def by blast
  qed
  show ?thesis using empty full unfolding K_def [symmetric] T_def [symmetric] by blast
qed

text \<open>
  The theorem at three frames with six classes, the second of which is dropped.
\<close>

theorem seq_probabilities_kept_frames_witness:
  "seq_probabilities three_frames (1/2) 0
     = Inr (map Fin [1/5, 1/10, 3/10, 3/10, 1/20, 1/20], Fin (3/5))"
proof -
  let ?rows = "[[1/10, 1/10, 2/10, 4/10, 1/10, 1/10], [9/10, 0, 0, 0, 1/10, 0],
     [3/10, 1/10, 4/10, 2/10, 0, 0]] :: real list list"
  have tf: "three_frames = (6, map (map Fin) ?rows)" by (simp add: three_frames_def)
  have wf: "\<forall>r\<in>set ?rows. length r = 6" by simp
  have K: "filter (\<lambda>r. r ! 0 < 1/2) ?rows
      = [[1/10, 1/10, 2/10, 4/10, 1/10, 1/10], [3/10, 1/10, 4/10, 2/10, 0, 0]]"
    by simp
  have six: "[0..<6] = [0, 1, 2, 3, 4, 5]" by (simp add: upt_rec numeral_eq_Suc)
  have T: "sum_list (map (colsum (filter (\<lambda>r. r ! 0 < 1/2) ?rows)) [0..<6]) = 2"
    unfolding K six by (simp add: colsum_def)
  obtain p where p: "seq_probabilities (6, map (map Fin) ?rows) (1/2) 0 = Inr (map Fin p, Fin (p ! 2 + p ! 3))"
      "p = map (\<lambda>j. colsum (filter (\<lambda>r. r ! 0 < 1/2) ?rows) j
                          / sum_list (map (colsum (filter (\<lambda>r. r ! 0 < 1/2) ?rows)) [0..<6])) [0..<6]"
    using seq_probabilities_kept_frames [OF wf, of 0 "1/2"] K T by auto
  have "p = [1/5, 1/10, 3/10, 3/10, 1/20, 1/20]"
    unfolding p(2) T unfolding K six by (simp add: colsum_def)
  then show ?thesis using p(1) by (simp add: tf)
qed

subsection \<open>Population model fitter\<close>

text \<open>
  Claim C8 at inputs with fewer than two samples. The function returns at once, without
  fitting and without raising, whatever \<open>k_states\<close> is; what it returns is the pair
  \<^verbatim>\<open>(None, None)\<close> and not the dictionary with \<open>params\<close>, \<open>bics\<close> and \<open>best_k\<close> that its
  docstring announces and that every other path returns: reading \<open>params\<close> from the
  result, as the caller does, raises TypeError.
\<close>

theorem fit_gaussian_mixture_too_few_samples:
  assumes "length arr < 2"
  shows "fit_gaussian_mixture fit arr ks = Inr NoneNone
       \<and> bindE (fit_gaussian_mixture fit arr ks) read_fitdict = Inl TypeError"
  using assms by (simp add: fit_gaussian_mixture_def bindE_def)

text \<open>The theorem at one sample in the automatic mode, and at no sample with two states.\<close>

theorem fit_gaussian_mixture_too_few_samples_witness:
  "fit_gaussian_mixture failing_fit [Fin (1/2)] (KRange [1..<6]) = Inr NoneNone
   \<and> bindE (fit_gaussian_mixture failing_fit [Fin (1/2)] (KRange [1..<6])) read_fitdict = Inl TypeError
   \<and> fit_gaussian_mixture failing_fit [] (KFixed 2) = Inr NoneNone"
proof -
  have "length [Fin (1/2)] < 2" and "length ([] :: float64 list) < 2" by simp_all
  then show ?thesis
    using fit_gaussian_mixture_too_few_samples [of "[Fin (1/2)]" failing_fit "KRange [1..<6]"]
      fit_gaussian_mixture_too_few_samples [of "[]" failing_fit "KFixed 2"]
    by blast
qed

subsection \<open>Correction-factor estimator\<close>




lemma sq_expand:
  "(\<Sum>(x, y)\<leftarrow>ps. (a' * x + b' - y)\<^sup>2) =
     (\<Sum>(x, y)\<leftarrow>ps. (a * x + b - y)\<^sup>2)
     + 2 * ((a' - a) * (\<Sum>(x, y)\<leftarrow>ps. (a * x + b - y) * x) + (b' - b) * (\<Sum>(x, y)\<leftarrow>ps. a * x + b - y))
     + (\<Sum>(x, y)\<leftarrow>ps. ((a' - a) * x + (b' - b))\<^sup>2)" for a :: real
  by (induction ps) (auto simp: power2_eq_square algebra_simps)

lemma residual_sums:
  "length ys = length xs \<Longrightarrow>
   (\<Sum>(x, y)\<leftarrow>zip xs ys. a * x + b - y) = a * sum_list xs + b * real (length xs) - sum_list ys
   \<and> (\<Sum>(x, y)\<leftarrow>zip xs ys. (a * x + b - y) * x)
       = a * sum_list (map (\<lambda>v. v * v) xs) + b * sum_list xs - sum_list (map2 (\<lambda>v w. v * w) xs ys)"
  for a :: real
proof (induction xs arbitrary: ys)
  case Nil then show ?case by simp
next
  case (Cons x xs)
  then obtain y ys' where "ys = y # ys'" by (cases ys) auto
  then show ?case using Cons by (simp add: algebra_simps)
qed

lemma variance_identity:
  fixes xs :: "real list"
  assumes "xs \<noteq> []"
  shows "real (length xs) * sum_list (map (\<lambda>v. v * v) xs) - sum_list xs * sum_list xs
       = real (length xs) * (\<Sum>x\<leftarrow>xs. (x - sum_list xs / real (length xs))\<^sup>2)"
proof -
  define m where "m = real (length xs)"
  define mu where "mu = sum_list xs / m"
  have m: "m \<noteq> 0" using assms by (simp add: m_def)
  have "(\<Sum>x\<leftarrow>ys. (x - c)\<^sup>2) = sum_list (map (\<lambda>v. v * v) ys) - 2 * c * sum_list ys + real (length ys) * c\<^sup>2"
    for ys :: "real list" and c
    by (induction ys) (auto simp: power2_eq_square algebra_simps)
  then have "(\<Sum>x\<leftarrow>xs. (x - mu)\<^sup>2) = sum_list (map (\<lambda>v. v * v) xs) - 2 * mu * sum_list xs + m * mu\<^sup>2"
    by (simp add: m_def)
  also have "\<dots> = sum_list (map (\<lambda>v. v * v) xs) - sum_list xs * sum_list xs / m"
    using m by (simp add: mu_def power2_eq_square field_simps)
  finally show ?thesis using m unfolding m_def [symmetric] mu_def [symmetric]
    by (simp add: field_simps)
qed

lemma zero_determinant_constant:
  fixes xs :: "real list"
  assumes "xs \<noteq> []"
    "real (length xs) * sum_list (map (\<lambda>v. v * v) xs) - sum_list xs * sum_list xs = 0"
  shows "\<forall>x\<in>set xs. x = hd xs"
proof -
  define mu where "mu = sum_list xs / real (length xs)"
  have "(\<Sum>x\<leftarrow>xs. (x - mu)\<^sup>2) = 0"
    using variance_identity [OF assms(1)] assms by (simp add: mu_def)
  then have "\<forall>x\<in>set xs. (x - mu)\<^sup>2 = 0"
    by (subst (asm) sum_list_nonneg_eq_0_iff) auto
  then have all: "\<forall>x\<in>set xs. x = mu" by simp
  moreover have "hd xs \<in> set xs" using assms(1) by simp
  ultimately show ?thesis by metis
qed

lemma constant_sums:
  fixes xs :: "real list"
  assumes "\<forall>x\<in>set xs. x = c"
  shows "sum_list xs = real (length xs) * c"
    "sum_list (map (\<lambda>v. v * v) xs) = real (length xs) * c * c"
  using assms by (induction xs) (auto simp: algebra_simps)

lemma constant_sum_products:
  fixes xs :: "real list"
  assumes "\<forall>x\<in>set xs. x = c" "length ys = length xs"
  shows "sum_list (map2 (\<lambda>v w. v * w) xs ys) = c * sum_list ys"
  using assms
proof (induction xs arbitrary: ys)
  case Nil then show ?case by simp
next
  case (Cons x xs)
  then obtain y ys' where "ys = y # ys'" by (cases ys) auto
  then show ?case using Cons by (simp add: algebra_simps)
qed

lemma np_linalg_lstsq_normal_equations:
  assumes len: "length ys = length xs" and ne: "xs \<noteq> []"
    and r: "np_linalg_lstsq (map Fin xs) (map Fin ys) = Inr (Fin a, Fin b)"
  shows "a * sum_list xs + b * real (length xs) - sum_list ys = 0"
    "a * sum_list (map (\<lambda>v. v * v) xs) + b * sum_list xs - sum_list (map2 (\<lambda>v w. v * w) xs ys) = 0"
proof -
  define m where "m = real (length xs)"
  define sx where "sx = sum_list xs"
  define sxx where "sxx = sum_list (map (\<lambda>v. v * v) xs)"
  define sy where "sy = sum_list ys"
  define sxy where "sxy = sum_list (map2 (\<lambda>v w. v * w) xs ys)"
  define d where "d = m * sxx - sx * sx"
  have m: "m \<noteq> 0" using ne by (simp add: m_def)
  have fin: "list_all isfinite (map Fin xs)" "list_all isfinite (map Fin ys)"
    by (simp_all add: list_all_iff)
  have unwrap: "map real_of (map Fin xs) = xs" "map real_of (map Fin ys) = ys"
    by (simp_all add: map_idI)
  have ab: "(a, b) = (if d \<noteq> 0 then ((m * sxy - sx * sy) / d, (sy - (m * sxy - sx * sy) / d * sx) / m)
                else (hd xs * (sy / m) / (hd xs * hd xs + 1), sy / m / (hd xs * hd xs + 1)))"
    using r len ne fin unfolding np_linalg_lstsq_def unwrap
    by (simp add: Let_def m_def sx_def sxx_def sy_def sxy_def d_def hd_map split: if_splits)
  have "a * sx + b * m - sy = 0 \<and> a * sxx + b * sx - sxy = 0"
  proof (cases "d = 0")
    case False
    then have a: "a = (m * sxy - sx * sy) / d" and b: "b = (sy - a * sx) / m" using ab by auto
    have 1: "a * sx + b * m - sy = 0" using m by (simp add: b)
    have bm: "b * m = sy - a * sx" using m by (simp add: b)
    have ad: "a * d = m * sxy - sx * sy" using False by (simp add: a)
    have "m * (a * sxx + b * sx - sxy) = a * d + (b * m - (sy - a * sx)) * sx - (m * sxy - sx * sy) + a * d - a * d"
      by (simp add: d_def algebra_simps)
    also have "\<dots> = 0" by (simp add: bm ad)
    finally show ?thesis using 1 m by simp
  next
    case True
    define c where "c = hd xs"
    have a: "a = c * (sy / m) / (c * c + 1)" and b: "b = sy / m / (c * c + 1)"
      using ab True by (auto simp: c_def)
    have const: "\<forall>x\<in>set xs. x = c"
      using zero_determinant_constant [OF ne] True
      by (simp add: d_def m_def sxx_def sx_def c_def)
    have s: "sx = m * c" "sxx = m * c * c" "sxy = c * sy"
      using constant_sums [OF const] constant_sum_products [OF const len]
      by (simp_all add: sx_def sxx_def sxy_def sy_def m_def)
    define q where "q = sy / m"
    define w where "w = c * c + 1"
    have "0 \<le> c * c" by simp
    then have pos: "w \<noteq> 0" unfolding w_def by linarith
    have aw: "a * w = c * q" and bw: "b * w = q"
      using pos by (simp_all add: a b w_def q_def)
    have "(a * c + b) * w = c * (a * w) + b * w" by (simp add: algebra_simps)
    also have "\<dots> = c * (c * q) + q" by (simp only: aw bw)
    also have "\<dots> = q * w" by (simp add: w_def algebra_simps)
    finally have "(a * c + b) * w = q * w" .
    then have "a * c + b = q" using pos by simp
    then have "a * c + b = sy / m" by (simp only: q_def)
    then have k: "m * (a * c + b) = sy" using m by simp
    have "a * sx + b * m - sy = 0" using k by (simp add: s algebra_simps)
    moreover have "a * sxx + b * sx - sxy = c * (m * (a * c + b)) - c * sy"
      by (simp add: s algebra_simps)
    ultimately show ?thesis using k by simp
  qed
  then show "a * sum_list xs + b * real (length xs) - sum_list ys = 0"
    "a * sum_list (map (\<lambda>v. v * v) xs) + b * sum_list xs - sum_list (map2 (\<lambda>v w. v * w) xs ys) = 0"
    by (simp_all add: m_def sx_def sxx_def sy_def sxy_def)
qed

text \<open>
  On numbers, the answer of the regression routine is a least-squares solution: no line
  has a smaller sum of squared residuals.
\<close>

lemma np_linalg_lstsq_least_squares:
  assumes len: "length ys = length xs" and ne: "xs \<noteq> []"
    and r: "np_linalg_lstsq (map Fin xs) (map Fin ys) = Inr (Fin a, Fin b)"
  shows "(\<Sum>(x, y)\<leftarrow>zip xs ys. (a * x + b - y)\<^sup>2) \<le> (\<Sum>(x, y)\<leftarrow>zip xs ys. (a' * x + b' - y)\<^sup>2)"
proof -
  have n: "(\<Sum>(x, y)\<leftarrow>zip xs ys. a * x + b - y) = 0"
    "(\<Sum>(x, y)\<leftarrow>zip xs ys. (a * x + b - y) * x) = 0"
    using residual_sums [OF len, of a b] np_linalg_lstsq_normal_equations [OF len ne r] by simp_all
  have "0 \<le> (\<Sum>(x, y)\<leftarrow>zip xs ys. ((a' - a) * x + (b' - b))\<^sup>2)"
    by (rule sum_list_nonneg) auto
  then show ?thesis
    using sq_expand [of a' b' "zip xs ys" a b] n by simp
qed




subsection \<open>Model-order selection\<close>

lemma min_scan_props:
  "min_scan v ts ks m (v ! (ts ! m)) \<in> set (m # ks) \<and>
   (\<forall>k\<in>set (m # ks). v ! (ts ! min_scan v ts ks m (v ! (ts ! m))) \<le> v ! (ts ! k))"
proof (induction ks arbitrary: m)
  case Nil
  show ?case by simp
next
  case (Cons k ks)
  show ?case
  proof (cases "v ! (ts ! k) < v ! (ts ! m)")
    case True
    then show ?thesis using Cons.IH [of k] by force
  next
    case False
    then show ?thesis using Cons.IH [of m] by force
  qed
qed

lemma select_step_props:
  assumes i: "i < length ts"
  shows "\<exists>m. i \<le> m \<and> m < length ts
           \<and> (\<forall>k. i \<le> k \<and> k < length ts \<longrightarrow> v ! (ts ! m) \<le> v ! (ts ! k))
           \<and> select_step v ts i = ts[i := ts ! m, m := ts ! i]"
proof -
  define m where "m = min_scan v ts [i + 1..<length ts] i (v ! (ts ! i))"
  have s: "set (i # [i + 1..<length ts]) = {i..<length ts}" using i by auto
  have "m \<in> {i..<length ts}" and "\<forall>k\<in>{i..<length ts}. v ! (ts ! m) \<le> v ! (ts ! k)"
    using min_scan_props [of v ts "[i + 1..<length ts]" i] unfolding s m_def by blast+
  moreover have "select_step v ts i = ts[i := ts ! m, m := ts ! i]"
    by (simp add: select_step_def m_def Let_def)
  ultimately show ?thesis by auto
qed

lemma select_step_length [simp]: "length (select_step v ts i) = length ts"
  by (simp add: select_step_def Let_def)

lemma select_step_before:
  assumes "i < length ts" "j < i"
  shows "select_step v ts i ! j = ts ! j"
proof -
  obtain m where "i \<le> m" "m < length ts" "select_step v ts i = ts[i := ts ! m, m := ts ! i]"
    using select_step_props [OF assms(1), of v] by blast
  then show ?thesis using assms by simp
qed

lemma select_step_set:
  assumes "i < length ts"
  shows "set (select_step v ts i) = set ts" "distinct (select_step v ts i) = distinct ts"
proof -
  obtain m where m: "i \<le> m" "m < length ts" "select_step v ts i = ts[i := ts ! m, m := ts ! i]"
    using select_step_props [OF assms, of v] by blast
  show "set (select_step v ts i) = set ts"
    unfolding m(3) using assms m(2) by (rule set_swap)
  show "distinct (select_step v ts i) = distinct ts"
    unfolding m(3) using assms m(2) by (rule distinct_swap)
qed

lemma select_step_min:
  assumes "i < length ts"
  shows "\<exists>m. i \<le> m \<and> m < length ts \<and> select_step v ts i ! i = ts ! m
           \<and> (\<forall>k. i \<le> k \<and> k < length ts \<longrightarrow> v ! (ts ! m) \<le> v ! (ts ! k))"
proof -
  obtain m where m: "i \<le> m" "m < length ts"
      "\<forall>k. i \<le> k \<and> k < length ts \<longrightarrow> v ! (ts ! m) \<le> v ! (ts ! k)"
      "select_step v ts i = ts[i := ts ! m, m := ts ! i]"
    using select_step_props [OF assms, of v] by blast
  have "select_step v ts i ! i = ts ! m"
    unfolding m(4) using assms m(2) by (cases "i = m") simp_all
  then show ?thesis using m by blast
qed

lemma dumb_select_2:
  "dumb_select v ts 2 = select_step v (select_step v (select_step v ts 0) 1) 2"
  by (simp add: dumb_select_def numeral_eq_Suc)

lemma argpartition_two_lowest:
  assumes n: "3 \<le> length s"
  shows "\<exists>part b sb. argpartition s 2 = Inr part \<and> part ! 0 = b \<and> part ! 1 = sb
     \<and> b < length s \<and> sb < length s \<and> b \<noteq> sb
     \<and> (\<forall>i<length s. s ! b \<le> s ! i)
     \<and> (\<forall>i<length s. i \<noteq> b \<longrightarrow> s ! sb \<le> s ! i)"
proof -
  define ts0 where "ts0 = [0..<length s]"
  define ts1 where "ts1 = select_step s ts0 0"
  define ts2 where "ts2 = select_step s ts1 1"
  define ts3 where "ts3 = select_step s ts2 2"
  have l0: "length ts0 = length s" by (simp add: ts0_def)
  have l1: "length ts1 = length s" by (simp add: ts1_def l0)
  have l2: "length ts2 = length s" by (simp add: ts2_def l1)
  have pos: "0 < length ts0" using n l0 by linarith
  have pos1: "1 < length ts1" using n l1 by linarith
  have pos2: "2 < length ts2" using n l2 by linarith
  have set1: "set ts1 = {0..<length s}"
    using select_step_set(1) [OF pos, of s] by (simp add: ts1_def ts0_def)
  have d1: "distinct ts1"
    using select_step_set(2) [OF pos, of s] by (simp add: ts1_def ts0_def)
  obtain m0 where m0: "m0 < length ts0" "ts1 ! 0 = ts0 ! m0"
      "\<forall>k. 0 \<le> k \<and> k < length ts0 \<longrightarrow> s ! (ts0 ! m0) \<le> s ! (ts0 ! k)"
    using select_step_min [OF pos, of s] unfolding ts1_def by auto
  obtain m1 where m1: "1 \<le> m1" "m1 < length ts1" "ts2 ! 1 = ts1 ! m1"
      "\<forall>k. 1 \<le> k \<and> k < length ts1 \<longrightarrow> s ! (ts1 ! m1) \<le> s ! (ts1 ! k)"
    using select_step_min [OF pos1, of s] unfolding ts2_def by auto
  define b where "b = ts1 ! 0"
  define sb where "sb = ts1 ! m1"
  have "0 < length ts1" using n l1 by linarith
  then have "ts1 ! 0 \<in> set ts1" by (rule nth_mem)
  then have b_lt: "b < length s" using set1 by (simp add: b_def)
  have "ts1 ! m1 \<in> set ts1" using m1(2) by (rule nth_mem)
  then have sb_lt: "sb < length s" using set1 by (simp add: sb_def)
  have ne: "b \<noteq> sb"
    using d1 m1(1,2) \<open>0 < length ts1\<close> by (auto simp: b_def sb_def nth_eq_iff_index_eq)
  have bmin: "s ! b \<le> s ! i" if "i < length s" for i
    using m0(3) that l0 by (simp add: b_def m0(2) ts0_def)
  have sbmin: "s ! sb \<le> s ! i" if "i < length s" "i \<noteq> b" for i
  proof -
    have "i \<in> set ts1" using set1 that by simp
    then obtain k where k: "k < length ts1" "ts1 ! k = i" by (auto simp: in_set_conv_nth)
    have "k \<noteq> 0"
    proof
      assume "k = 0"
      then have "i = b" using k(2) by (simp add: b_def)
      then show False using that(2) by simp
    qed
    then have "1 \<le> k" by simp
    then show ?thesis using m1(4) k unfolding sb_def by blast
  qed
  have p0: "ts3 ! 0 = b"
    using select_step_before [OF pos2, of 0 s] select_step_before [OF pos1, of 0 s]
    by (simp add: ts3_def ts2_def b_def)
  have p1: "ts3 ! 1 = sb"
    using select_step_before [OF pos2, of 1 s] m1(3) by (simp add: ts3_def sb_def)
  have "argpartition s 2 = Inr ts3"
    using n by (simp add: argpartition_def dumb_select_2 ts3_def ts2_def ts1_def ts0_def)
  then show ?thesis using p0 p1 b_lt sb_lt ne bmin sbmin by blast
qed

text \<open>
  The selection on three or more candidate scores: there are a lowest-scoring index \<open>b\<close>
  and a second-lowest-scoring index \<open>sb\<close> (lowest among the others) such that the
  selection returns \<open>b\<close>, except that it returns \<open>sb\<close> when \<open>sb\<close> is the smaller index
  (fewer states) and the lowest score plus the tolerance exceeds the second-lowest score.
  On fewer than three scores \<^verbatim>\<open>np.argpartition(s, 2)\<close> raises ValueError.
\<close>

theorem heuristic_bic_selection:
  "(3 \<le> length s \<longrightarrow>
      (\<exists>b sb. b < length s \<and> sb < length s \<and> b \<noteq> sb
         \<and> (\<forall>i<length s. s ! b \<le> s ! i)
         \<and> (\<forall>i<length s. i \<noteq> b \<longrightarrow> s ! sb \<le> s ! i)
         \<and> heuristic_bic s tol = Inr (if sb < b \<and> s ! b + tol > s ! sb then sb else b)))
   \<and> (length s < 3 \<longrightarrow> heuristic_bic s tol = Inl ValueError)"
proof (intro conjI impI)
  assume "3 \<le> length s"
  then obtain part b sb where p: "argpartition s 2 = Inr part" "part ! 0 = b" "part ! 1 = sb"
      and q: "b < length s" "sb < length s" "b \<noteq> sb" "\<forall>i<length s. s ! b \<le> s ! i"
        "\<forall>i<length s. i \<noteq> b \<longrightarrow> s ! sb \<le> s ! i"
    using argpartition_two_lowest [of s] by blast
  have "heuristic_bic s tol = Inr (if sb < b \<and> s ! b + tol > s ! sb then sb else b)"
    using p by (simp add: heuristic_bic_def bindE_def Let_def)
  then show "\<exists>b sb. b < length s \<and> sb < length s \<and> b \<noteq> sb
         \<and> (\<forall>i<length s. s ! b \<le> s ! i)
         \<and> (\<forall>i<length s. i \<noteq> b \<longrightarrow> s ! sb \<le> s ! i)
         \<and> heuristic_bic s tol = Inr (if sb < b \<and> s ! b + tol > s ! sb then sb else b)"
    using q by blast
next
  assume "length s < 3"
  then show "heuristic_bic s tol = Inl ValueError"
    by (simp add: heuristic_bic_def argpartition_def bindE_def)
qed

text \<open>
  The theorem at three candidates with the default tolerance 20: a three-state optimum
  within the tolerance of the two-state score gives way to two states; one further away
  stands; a one-state optimum stands.
\<close>

theorem heuristic_bic_selection_witness:
  "heuristic_bic [100, 90, 85] 20 = Inr 1 \<and> heuristic_bic [100, 90, 60] 20 = Inr 2
   \<and> heuristic_bic [50, 60, 90] 20 = Inr 0"
proof -
  have three: "\<And>P. (\<forall>i<3. P i) = (P 0 \<and> P 1 \<and> P (2::nat))"
    by (auto simp: less_Suc_eq numeral_3_eq_3 numeral_2_eq_2)
  have A: "heuristic_bic [100, 90, 85] 20 = Inr 1"
  proof -
    let ?s = "[100, 90, 85] :: real list"
    have len: "3 \<le> length ?s" by simp
    obtain b sb where h: "b < length ?s" "sb < length ?s" "b \<noteq> sb"
        "\<forall>i<length ?s. ?s ! b \<le> ?s ! i"
        "\<forall>i<length ?s. i \<noteq> b \<longrightarrow> ?s ! sb \<le> ?s ! i"
        "heuristic_bic ?s 20 = Inr (if sb < b \<and> ?s ! b + 20 > ?s ! sb then sb else b)"
      using heuristic_bic_selection [of ?s 20] len by blast
    have b: "b = 2" using h(1,4) by (auto simp: three nth_Cons' less_Suc_eq numeral_3_eq_3 split: if_splits)
    have sb: "sb = 1" using h(2,3,5) b by (auto simp: three nth_Cons' less_Suc_eq numeral_3_eq_3 split: if_splits)
    show ?thesis using h(6) by (simp add: b sb)
  qed
  have B: "heuristic_bic [100, 90, 60] 20 = Inr 2 \<and> heuristic_bic [50, 60, 90] 20 = Inr 0"
    by (simp add: heuristic_bic_def argpartition_def bindE_def dumb_select_def select_step_def
        numeral_eq_Suc upt_rec)
  show ?thesis using A B by simp
qed

text \<open>
  Claim C2 at two candidate scores (\<^verbatim>\<open>n_components_max = 2\<close>), 100 for one state and 90
  for two, with the default tolerance 20. The lowest score is that of two states, the
  second-lowest that of one state, a smaller state count, and \<open>90 + 20 > 100\<close>: the
  selection described returns one state (index 0). The code asks
  \<^verbatim>\<open>np.argpartition\<close> for position 2 of a two-element array and raises ValueError; so it
  does on every list of one or two scores.
\<close>

theorem heuristic_bic_two_candidates:
  "heuristic_bic [100, 90] 20 = Inl ValueError
   \<and> heuristic_bic [s0, s1] tol = Inl ValueError
   \<and> heuristic_bic [s0] tol = Inl ValueError"
  by (simp add: heuristic_bic_def argpartition_def bindE_def)

subsection \<open>Transition table\<close>

lemma rows_from_pipeline:
  "zip (cumsum acc (map (\<lambda>d. fgt (fabs d) (Fin 0)) (map2 fsub ys (p # ys))))
       (zip ys (zip (tl ys @ [w]) [t..<t + length ys]))
   = rows_from acc (Some p) t w ys"
proof (induction ys arbitrary: acc p t)
  case Nil
  show ?case by simp
next
  case (Cons y ys)
  define sj where "sj = acc + (if jump (Some p) y then 1 else 0)"
  have u: "[t..<t + length (y # ys)] = t # [t + 1..<t + 1 + length ys]"
    by (simp add: upt_rec)
  have c: "cumsum acc (map (\<lambda>d. fgt (fabs d) (Fin 0)) (map2 fsub (y # ys) (p # y # ys)))
      = sj # cumsum sj (map (\<lambda>d. fgt (fabs d) (Fin 0)) (map2 fsub ys (y # ys)))"
    by (simp add: sj_def)
  have r: "rows_from acc (Some p) t w (y # ys)
      = (sj, y, (case ys of [] \<Rightarrow> w | y' # _ \<Rightarrow> y'), t) # rows_from sj (Some y) (t + 1) w ys"
    by (simp add: sj_def)
  show ?case
  proof (cases ys)
    case Nil
    then show ?thesis unfolding c r u by simp
  next
    case (Cons y' ys')
    have z: "zip (y # ys) (zip (tl (y # ys) @ [w]) (t # [t + 1..<t + 1 + length ys]))
        = (y, y', t) # zip ys (zip (tl ys @ [w]) [t + 1..<t + 1 + length ys])"
      using Cons by simp
    show ?thesis
      unfolding c r u z using Cons.IH [of sj y "t + 1"] Cons by simp
  qed
qed

lemma rows_of_signal:
  "zip (cumsum 0 (map (\<lambda>d. fgt (fabs d) (Fin 0)) (series_diff (y # ys))))
       (zip (y # ys) (zip (roll_left (y # ys)) [1..<length (y # ys) + 1]))
   = rows_from 0 None 1 y (y # ys)"
proof -
  have u: "[1..<length (y # ys) + 1] = 1 # [1 + 1..<1 + 1 + length ys]"
    by (simp add: upt_rec)
  have c: "cumsum 0 (map (\<lambda>d. fgt (fabs d) (Fin 0)) (series_diff (y # ys)))
      = 0 # cumsum 0 (map (\<lambda>d. fgt (fabs d) (Fin 0)) (map2 fsub ys (y # ys)))"
    by (simp add: series_diff_def fgt_def)
  have r: "rows_from 0 None 1 y (y # ys)
      = (0, y, (case ys of [] \<Rightarrow> y | y' # _ \<Rightarrow> y'), 1) # rows_from 0 (Some y) (1 + 1) y ys"
    by simp
  show ?thesis
  proof (cases ys)
    case Nil
    then show ?thesis unfolding c r u by (simp add: roll_left_def)
  next
    case (Cons y' ys')
    have z: "zip (y # ys) (zip (roll_left (y # ys)) (1 # [1 + 1..<1 + 1 + length ys]))
        = (y, y', 1) # zip ys (zip (tl ys @ [y]) [1 + 1..<1 + 1 + length ys])"
      using Cons by (simp add: roll_left_def)
    show ?thesis
      unfolding c r u z using rows_from_pipeline [of 0 ys y y "1 + 1"] Cons by simp
  qed
qed

lemma rows_from_keys_ge: "r \<in> set (rows_from acc prev t w ys) \<Longrightarrow> acc \<le> fst r"
proof (induction ys arbitrary: acc prev t)
  case Nil
  then show ?case by simp
next
  case (Cons y ys)
  then show ?case by (fastforce split: if_splits)
qed

lemma rows_from_sorted: "sorted (map fst (rows_from acc prev t w ys))"
proof (induction ys arbitrary: acc prev t)
  case Nil
  show ?case by simp
next
  case (Cons y ys)
  show ?case using Cons.IH rows_from_keys_ge by fastforce
qed

lemma drop_duplicates_sorted:
  "sorted (map fst rs) \<Longrightarrow> drop_duplicates_last rs = keep_run_ends rs"
proof (induction rs rule: keep_run_ends.induct)
  case (1 r r' rs)
  have "fst r \<in> fst ` set (r' # rs) \<longleftrightarrow> fst r = fst r'"
    using "1.prems" by fastforce
  then show ?case using 1 by simp
qed simp_all

lemma jump_flag [simp]: "fgt (fabs (fsub (Fin a) (Fin b))) (Fin 0) = (a \<noteq> b)"
  by (auto simp: fsub_def fgt_def)

lemma rows_from_normalize:
  "rows_from acc prev t w (Fin v # ys)
   = rows_from (acc + (if jump prev (Fin v) then 1 else 0)) (Some (Fin v)) t w (Fin v # ys)"
  by simp

lemma within_run:
  "keep_run_ends (rows_from sj (Some (Fin v)) t w (replicate (Suc m) (Fin v) @ rest))
   = keep_run_ends (rows_from sj (Some (Fin v)) (t + m) w (Fin v # rest))"
proof (induction m arbitrary: t)
  case 0
  show ?case by simp
next
  case (Suc m)
  have "keep_run_ends (rows_from sj (Some (Fin v)) t w (replicate (Suc (Suc m)) (Fin v) @ rest))
      = keep_run_ends (rows_from sj (Some (Fin v)) (t + 1) w (replicate (Suc m) (Fin v) @ rest))"
    by simp
  then show ?case using Suc.IH [of "t + 1"] by simp
qed

lemma expand_proper_Cons:
  "proper_runs ((v, n) # runs) \<Longrightarrow> \<exists>m. n = Suc m"
  by (cases runs; cases n) auto

lemma kept_of_runs:
  "proper_runs ((v, n) # runs) \<Longrightarrow>
   keep_run_ends (rows_from sj (Some (Fin v)) t w (expand ((v, n) # runs)))
   = kept_rows sj t w ((v, n) # runs)"
proof (induction runs arbitrary: v n sj t)
  case Nil
  then obtain m where n: "n = Suc m" using expand_proper_Cons by blast
  show ?case using within_run [of sj v t w m "[]"] by (simp add: n)
next
  case (Cons r runs)
  obtain v' n' where r: "r = (v', n')" by (cases r)
  obtain m where n: "n = Suc m" using Cons.prems expand_proper_Cons by blast
  have p': "proper_runs ((v', n') # runs)" and ne: "v \<noteq> v'"
    using Cons.prems by (simp_all add: r)
  obtain m' where n': "n' = Suc m'" using p' expand_proper_Cons by blast
  define rest where "rest = replicate m' (Fin v') @ expand runs"
  have e': "expand ((v', n') # runs) = Fin v' # rest" by (simp add: n' rest_def)
  have e: "expand ((v, n) # r # runs) = replicate (Suc m) (Fin v) @ Fin v' # rest"
    using e' by (simp add: n r)
  have "keep_run_ends (rows_from sj (Some (Fin v)) t w (expand ((v, n) # r # runs)))
      = keep_run_ends (rows_from sj (Some (Fin v)) (t + m) w (Fin v # Fin v' # rest))"
    unfolding e by (rule within_run)
  also have "\<dots> = (sj, Fin v, Fin v', t + m)
      # keep_run_ends (rows_from (sj + 1) (Some (Fin v')) (t + m + 1) w (Fin v' # rest))"
    using ne by simp
  also have "keep_run_ends (rows_from (sj + 1) (Some (Fin v')) (t + m + 1) w (Fin v' # rest))
      = kept_rows (sj + 1) (t + m + 1) w ((v', n') # runs)"
    using Cons.IH [OF p', of "sj + 1" "t + m + 1"] by (simp only: e')
  finally show ?case by (simp add: r n)
qed

lemma kept_rows_length [simp]: "length (kept_rows sj t w runs) = length runs"
  by (induction runs arbitrary: sj t) auto

lemma kept_rows_times:
  "0 < t \<Longrightarrow>
   np_diff ((t - 1) # map (\<lambda>(sj, y, ya, t). t) (kept_rows sj t w runs))
   = map (\<lambda>(v, n). Fin (real n)) runs"
proof (induction runs arbitrary: sj t)
  case Nil
  show ?case by simp
next
  case (Cons r runs)
  obtain v n where r: "r = (v, n)" by (cases r)
  have "np_diff ((t + n - 1) # map (\<lambda>(sj, y, ya, t). t) (kept_rows (sj + 1) (t + n) w runs))
      = map (\<lambda>(v, n). Fin (real n)) runs"
    using Cons.IH [of "t + n" "sj + 1"] Cons.prems by simp
  moreover have "real (t + n - 1) - real (t - 1) = real n"
    using Cons.prems by simp
  ultimately show ?case by (simp add: r)
qed

lemma change_rows_first:
  "(case change_rows ((v, n) # runs) of [] \<Rightarrow> [] | (y, ya, l) # rows \<Rightarrow> (y, ya, Fin (real n)) # rows)
   = change_rows ((v, n) # runs)"
  by (cases runs) auto

lemma assemble_rows:
  "butlast (map2 (\<lambda>(sj, y, ya, t) l. (y, ya, l)) (kept_rows sj t w ((v, n) # runs))
             (lt # map (\<lambda>(v, n). Fin (real n)) runs))
   = (case change_rows ((v, n) # runs) of [] \<Rightarrow> [] | (y, ya, l) # rows \<Rightarrow> (y, ya, lt) # rows)"
proof (induction runs arbitrary: v n sj t lt)
  case Nil
  show ?case by simp
next
  case (Cons r runs)
  obtain v' n' where r: "r = (v', n')" by (cases r)
  let ?tail = "map2 (\<lambda>(sj, y, ya, t) l. (y, ya, l)) (kept_rows (sj + 1) (t + n) w ((v', n') # runs))
             (Fin (real n') # map (\<lambda>(v, n). Fin (real n)) runs)"
  have ne: "?tail \<noteq> []" by simp
  have "butlast ?tail = change_rows ((v', n') # runs)"
    using Cons.IH [where v = v' and n = n' and sj = "sj + 1" and t = "t + n" and lt = "Fin (real n')"] change_rows_first [where v = v' and n = n' and runs = runs]
    by simp
  moreover have "map2 (\<lambda>(sj, y, ya, t) l. (y, ya, l)) (kept_rows sj t w ((v, n) # r # runs))
             (lt # map (\<lambda>(v, n). Fin (real n)) (r # runs)) = (Fin v, Fin v', lt) # ?tail"
    by (simp add: r)
  ultimately show ?case using ne by (simp add: r)
qed

lemma change_rows_length: "length (change_rows runs) = length runs - 1"
  by (induction runs rule: change_rows.induct) auto

lemma table_of_runs_length: "length (table_of_runs runs) = length runs - 1"
  using change_rows_length [of runs] by (auto simp: table_of_runs_def split: list.splits)

lemma transitions_expand:
  assumes "proper_runs runs" "runs \<noteq> []"
  shows "fit_hmm_lifetimes (expand runs) = Inr (table_of_runs runs)
       \<and> length (table_of_runs runs) = length runs - 1"
proof -
  obtain v n rest where runs: "runs = (v, n) # rest" using assms(2) by (cases runs) auto
  obtain m where n: "n = Suc m" using assms(1) expand_proper_Cons unfolding runs by blast
  define ys where "ys = replicate m (Fin v) @ expand rest"
  have e: "expand runs = Fin v # ys" by (simp add: runs n ys_def)
  define lf where "lf = drop_duplicates_last
      (zip (cumsum 0 (map (\<lambda>d. fgt (fabs d) (Fin 0)) (series_diff (expand runs))))
         (zip (expand runs) (zip (roll_left (expand runs)) [1..<length (expand runs) + 1])))"
  have "lf = drop_duplicates_last (rows_from 0 None 1 (Fin v) (Fin v # ys))"
    unfolding lf_def e by (simp only: rows_of_signal)
  also have "\<dots> = keep_run_ends (rows_from 0 None 1 (Fin v) (Fin v # ys))"
    by (rule drop_duplicates_sorted) (rule rows_from_sorted)
  also have "rows_from 0 None 1 (Fin v) (Fin v # ys) = rows_from 0 (Some (Fin v)) 1 (Fin v) (Fin v # ys)"
    by simp
  also have "keep_run_ends (rows_from 0 (Some (Fin v)) 1 (Fin v) (Fin v # ys)) = kept_rows 0 1 (Fin v) runs"
    using kept_of_runs [of v n rest 0 1 "Fin v"] assms(1) by (simp only: runs [symmetric] e)
  finally have lf: "lf = kept_rows 0 1 (Fin v) runs" .
  have times: "np_diff (map (\<lambda>(sj, y, ya, t). t) lf) = map (\<lambda>(v, n). Fin (real n)) rest"
    using kept_rows_times [of "1 + n" 1 "Fin v" rest] by (simp add: lf runs)
  have "fit_hmm_lifetimes (expand runs)
      = Inr (butlast (map2 (\<lambda>(sj, y, ya, t) l. (y, ya, l)) lf (NaN # np_diff (map (\<lambda>(sj, y, ya, t). t) lf))))"
    unfolding fit_hmm_lifetimes_def Let_def lf_def [symmetric] by (simp add: times) (simp add: lf runs)
  also have "\<dots> = Inr (table_of_runs runs)"
    unfolding times using assemble_rows [where v = v and n = n and sj = 0 and t = 1 and lt = NaN and w = "Fin v" and runs = rest]
    by (simp add: lf runs table_of_runs_def)
  finally show ?thesis using table_of_runs_length by simp
qed

lemma expand_rle: "expand (rle xs) = map Fin xs"
  by (induction xs) (auto split: list.splits)

lemma proper_runs_grow: "proper_runs ((v, n) # runs) \<Longrightarrow> proper_runs ((v, Suc n) # runs)"
  by (cases runs) auto

lemma proper_rle: "proper_runs (rle xs)"
  by (induction xs) (auto split: list.splits intro: proper_runs_grow)

lemma rle_nonempty: "xs \<noteq> [] \<Longrightarrow> rle xs \<noteq> []"
  by (cases xs) (auto split: list.splits)

text \<open>
  Claim C1, as the code has it. For a signal of numbers made of proper constant-value
  runs (every non-empty signal of numbers is one, by its run-length encoding \<open>rle\<close>), the
  table has one row per state change, \<open>(value before, value after, lifetime)\<close>, and none
  for the final run. The lifetime of every row but the first is the length of the run
  before the change; the lifetime of the first row is NaN, since the first run is cut
  short by the start of the observation window. For runs \<open>[a,a,a,b,b,c]\<close> the rows are
  \<open>(a, b, NaN)\<close> and \<open>(b, c, 2)\<close>.
\<close>

theorem transitions_of_runs:
  "(proper_runs runs \<and> runs \<noteq> [] \<longrightarrow>
      fit_hmm_lifetimes (expand runs) = Inr (table_of_runs runs)
      \<and> length (table_of_runs runs) = length runs - 1)
   \<and> (xs \<noteq> [] \<longrightarrow>
      proper_runs (rle xs) \<and> expand (rle xs) = map Fin xs
      \<and> fit_hmm_lifetimes (map Fin xs) = Inr (table_of_runs (rle xs)))
   \<and> (a \<noteq> b \<and> b \<noteq> c \<longrightarrow>
      fit_hmm_lifetimes (map Fin [a, a, a, b, b, c]) = Inr [(Fin a, Fin b, NaN), (Fin b, Fin c, Fin 2)])"
proof -
  have "fit_hmm_lifetimes (map Fin [a, a, a, b, b, c]) = Inr [(Fin a, Fin b, NaN), (Fin b, Fin c, Fin 2)]"
    if "a \<noteq> b \<and> b \<noteq> c"
    using transitions_expand [of "[(a, 3), (b, 2), (c, 1)]"] that
    by (simp add: table_of_runs_def numeral_eq_Suc)
  then show ?thesis
    using transitions_expand [of runs] transitions_expand [of "rle xs"]
      proper_rle [of xs] rle_nonempty [of xs] expand_rle [of xs]
    by auto
qed

text \<open>
  The theorem at a ten-frame signal with four runs, of lengths 2, 3, 1 and 4.
\<close>

theorem transitions_of_runs_witness:
  "fit_hmm_lifetimes (map Fin [1/2, 1/2, 4/5, 4/5, 4/5, 1/2, 1/5, 1/5, 1/5, 1/5])
     = Inr [(Fin (1/2), Fin (4/5), NaN), (Fin (4/5), Fin (1/2), Fin 3), (Fin (1/2), Fin (1/5), Fin 1)]"
proof -
  have "proper_runs four_runs \<and> four_runs \<noteq> []" by (simp add: four_runs_def)
  then have "fit_hmm_lifetimes (expand four_runs) = Inr (table_of_runs four_runs)"
    using transitions_of_runs [of four_runs] by blast
  then show ?thesis
    by (simp add: four_runs_def table_of_runs_def numeral_eq_Suc)
qed

text \<open>
  The claim as stated fails for runs \<open>[a,a,a,b,b,c]\<close> with \<open>a = 1\<close>, \<open>b = 2\<close>, \<open>c = 3\<close>:
  the table is not the one with lifetime 3 in its first row.
\<close>

theorem transitions_first_lifetime_counterexample:
  "fit_hmm_lifetimes (map Fin [1, 1, 1, 2, 2, 3]) \<noteq> Inr [(Fin 1, Fin 2, Fin 3), (Fin 2, Fin 3, Fin 2)]"
  by code_simp

lemma transitions_aaabbc:
  "fit_hmm_lifetimes (map Fin [1, 1, 1, 2, 2, 3]) = Inr [(Fin 1, Fin 2, NaN), (Fin 2, Fin 3, Fin 2)]"
  by code_simp

subsection \<open>ASCII trace files\<close>

lemma build_trace_fields [simp]:
  "intensities_of (build_trace f mv pn ints ml E S) = ints"
  "fret (build_trace f mv pn ints ml E S) = E"
  "stoi (build_trace f mv pn ints ml E S) = S"
  by (cases ints; simp add: build_trace_def intensities_of_def)+

lemma load_channels_and_signals_Some:
  assumes "load_channels_and_signals f df colnames mv pn = Inr (Some t)"
  shows "\<exists>ints ml E S. read_channels df colnames = Inr (ints, ml)
     \<and> calcFRET ints 0 0 default_clip = Inr E \<and> calcStoi ints 0 0 1 1 default_clip = Inr S
     \<and> t = build_trace f mv pn ints ml E S"
  using assms
  by (auto simp: load_channels_and_signals_def bindE_Inr_iff split: if_splits)

lemma load_recomputes:
  assumes "loadTraceFromAscii f = Inr (Some t)"
  shows "calcFRET (intensities_of t) 0 0 default_clip = Inr (fret t)
       \<and> calcStoi (intensities_of t) 0 0 1 1 default_clip = Inr (stoi t)"
proof -
  obtain df colnames mv pn where "load_channels_and_signals f df colnames mv pn = Inr (Some t)"
    using assms
    by (cases "pair_line f"; cases "movie_line f")
      (auto simp: loadTraceFromAscii_def bindE_Inr_iff)
  then show ?thesis using load_channels_and_signals_Some by fastforce
qed

lemma read_channels_standard:
  "read_channels [(''D-Dexc-bg'', gb), (''A-Dexc-bg'', ab), (''A-Aexc-bg'', rb),
                  (''D-Dexc-rw'', g), (''A-Dexc-rw'', a), (''A-Aexc-rw'', r),
                  (''S'', S), (''E'', E)] colnames0
   = Inr ((g, gb, a, ab, r, rb), None)"
  by (simp add: read_channels_def colnames0_def set_columns_def getcol_def strip_dots_def bindE_def)

lemma load_standard:
  "loadTraceFromAscii (standard_file mv pn bl (g, gb, a, ab, r, rb) S E) =
     bindE (calcFRET (g, gb, a, ab, r, rb) 0 0 default_clip) (\<lambda>E'.
     bindE (calcStoi (g, gb, a, ab, r, rb) 0 0 1 1 default_clip) (\<lambda>S'.
     if length g = 0 then Inl ValueError
     else Inr (Some
       \<lparr>movie = mv, pair_n = pn,
        grn_int = g, grn_bg = gb, acc_int = a, acc_bg = ab, red_int = r, red_bg = rb,
        grn_bleach = fst bl, red_bleach = snd bl,
        fret = E', stoi = S',
        y_pred = None, y_class = None, confidence = None\<rparr>)))"
  by (cases bl; cases "length g = 0")
    (simp_all add: loadTraceFromAscii_def load_channels_and_signals_def standard_file_def
      read_table_def read_channels_standard bindE_def build_trace_def split: sum.splits)









text \<open>
  Claim C9. Whenever \<^verbatim>\<open>loadTraceFromAscii\<close> returns a trace, from a file of any of the
  supported layouts, its E and S are \<^verbatim>\<open>calcFRET\<close> and \<^verbatim>\<open>calcStoi\<close> of its intensities
  and backgrounds with \<open>alpha = delta = 0\<close> and \<open>beta = gamma = 1\<close>. For a file in the
  exported layout, these are the raw intensity and background columns, and the result
  does not depend on what the S and E columns hold.
\<close>

theorem import_recomputes_E_and_S:
  "(\<forall>t. loadTraceFromAscii f = Inr (Some t) \<longrightarrow>
        calcFRET (intensities_of t) 0 0 default_clip = Inr (fret t)
      \<and> calcStoi (intensities_of t) 0 0 1 1 default_clip = Inr (stoi t))
   \<and> loadTraceFromAscii (standard_file mv pn bl ints S E)
       = loadTraceFromAscii (standard_file mv pn bl ints S' E')
   \<and> (\<forall>t. loadTraceFromAscii (standard_file mv pn bl ints S E) = Inr (Some t) \<longrightarrow>
        intensities_of t = ints)"
proof -
  obtain g gb a ab r rb where ints: "ints = (g, gb, a, ab, r, rb)" by (cases ints) auto
  have same: "loadTraceFromAscii (standard_file mv pn bl ints S E)
       = loadTraceFromAscii (standard_file mv pn bl ints S' E')"
    unfolding ints load_standard ..
  have raw: "intensities_of t = ints"
    if "loadTraceFromAscii (standard_file mv pn bl ints S E) = Inr (Some t)" for t
    using that unfolding ints load_standard
    by (auto simp: bindE_Inr_iff intensities_of_def split: if_splits)
  show ?thesis using load_recomputes [of f] same raw by blast
qed

text \<open>
  The theorem at a file whose S and E columns hold 9 and 7: the trace gets
  \<open>E = 1/2\<close> and \<open>S = 4/7\<close>, computed from the intensities.
\<close>

theorem import_recomputes_E_and_S_witness:
  "\<exists>t. loadTraceFromAscii (standard_file ''movie.tif'' 3 (None, Some 12) lit_frame [Fin 9] [Fin 7])
        = Inr (Some t)
     \<and> intensities_of t = lit_frame \<and> fret t = [Fin (1 / 2)] \<and> stoi t = [Fin (4 / 7)]"
proof -
  let ?f = "standard_file ''movie.tif'' 3 (None, Some 12) lit_frame [Fin 9] [Fin 7]"
  have E: "calcFRET lit_frame 0 0 default_clip = Inr [Fin (1 / 2)]"
    by (simp add: lit_frame_def calcFRET_def correctDA_def bindE_def ew2_def fsub_def
        default_clip_def)
  have S: "calcStoi lit_frame 0 0 1 1 default_clip = Inr [Fin (4 / 7)]"
    by (simp add: lit_frame_def calcStoi_def correctDA_def bindE_def ew2_def fsub_def
        default_clip_def)
  obtain t where t: "loadTraceFromAscii ?f = Inr (Some t)"
    using E S unfolding lit_frame_def load_standard by (simp add: bindE_def)
  have "intensities_of t = lit_frame"
    "calcFRET (intensities_of t) 0 0 default_clip = Inr (fret t)"
    "calcStoi (intensities_of t) 0 0 1 1 default_clip = Inr (stoi t)"
    using import_recomputes_E_and_S [of ?f "''movie.tif''" 3 "(None, Some 12)" lit_frame "[Fin 9]" "[Fin 7]"] t
    by blast+
  then show ?thesis using t E S by auto
qed

end
